theory Spec2Isabelle
  imports Complex_Main "HOL-Library.Char_ord" "HOL-Library.List_Lexorder"
begin

section \<open>Data model\<close>

text \<open>
  Embedding of the class \<open>SimpleAdjustmentSystem\<close> of \<open>Feature_Selection.py\<close>.

  A cell of a data frame is a number, the float NaN (an empty spreadsheet cell), or
  something that is not a number (a label of the identifier column). A number is a
  rational; the numbers the program computes are binary64 floats, and every arithmetic
  operation of the source is the exact operation followed by the rounding \<open>fl\<close> to the
  nearest float (section below). The columns of a frame are float columns, as
  \<open>pd.read_excel\<close> makes of a column of decimal numbers, so that every number can be
  written into the copy.
\<close>

datatype cell = Num rat | NaN | Txt string

text \<open>
  A row maps column labels to cells, a data frame is the sequence of its rows. The row
  labels are the positions \<open>0, 1, ...\<close> (the index \<open>pd.read_excel\<close> gives a frame),
  and column labels are unique.
\<close>

type_synonym row = "string \<rightharpoonup> cell"

type_synonym dataframe = "row list"

text \<open>The exceptions the methods can raise.\<close>

datatype error =
    KeyError            \<comment> \<open>a selected column is not in the frame\<close>
  | TypeError           \<comment> \<open>arithmetic or comparison on a cell that is not a number\<close>
  | ProgrammingError    \<comment> \<open>sqlite3: the connection is closed\<close>
  | OperationalError    \<comment> \<open>sqlite3: the database cannot take the write\<close>

text \<open>One row of the table \<open>adjustments\<close>, a field for each of its columns.\<close>

record adjustment =
  id_col :: int
  random_value_col :: rat
  operation_col :: string
  timestamp_col :: string

text \<open>
  What a call takes from outside the program: the sample in \<open>[0, 1)\<close> behind
  \<open>np.random.uniform\<close>, the index \<open>np.random.choice\<close> picks, the string
  \<open>datetime.now().isoformat()\<close> returns, and whether the storage refuses the write.
\<close>

record env =
  random_sample :: rat
  choice_index :: nat
  now :: string
  write_fault :: bool

text \<open>
  The state the methods work on: the connection and the table behind it (rows in rowid
  order, and the counter SQLite keeps in \<open>sqlite_sequence\<close> for an AUTOINCREMENT key),
  and the data frame objects, addressed by their position in \<open>heap\<close>.
\<close>

record state =
  conn_open :: bool
  adjustments :: "adjustment list"
  sqlite_sequence :: int
  heap :: "dataframe list"

section \<open>Binary64 arithmetic\<close>

text \<open>Rounding to the nearest integer, a tie to the even neighbour.\<close>

definition round_half_even :: "rat \<Rightarrow> int" where
  "round_half_even x =
     (let f = \<lfloor>x\<rfloor>; d = x - of_int f
      in if d < 1 / 2 then f else if 1 / 2 < d then f + 1 else if even f then f else f + 1)"

text \<open>
  The exponent of a positive number in binary64: the \<open>e\<close> with \<open>2^e \<le> x < 2^(e+1)\<close>,
  looked for from the largest exponent 1023 downwards and not below -1022, the exponent
  of the subnormal numbers.
\<close>

fun scan_expo :: "nat \<Rightarrow> int \<Rightarrow> rat \<Rightarrow> int" where
  "scan_expo 0 e x = e"
| "scan_expo (Suc n) e x = (if power_int 2 e \<le> x then e else scan_expo n (e - 1) x)"

definition expo :: "rat \<Rightarrow> int" where
  "expo x = scan_expo 2045 1023 x"

text \<open>The distance of neighbouring floats at \<open>x\<close>: a significand has 53 bits.\<close>

definition ulp :: "rat \<Rightarrow> rat" where
  "ulp x = power_int 2 (expo x - 52)"

text \<open>
  The float nearest to a number, a tie to the even significand (the rounding of IEEE 754
  that Python and numpy compute with). Numbers beyond the largest float, which round to
  infinity, do not occur: the program adds numbers below 1 to cells, multiplies numbers
  of the unit interval by 100000 and divides by 100000.
\<close>

definition flp :: "rat \<Rightarrow> rat" where
  "flp x = of_int (round_half_even (x / ulp x)) * ulp x"

definition fl :: "rat \<Rightarrow> rat" where
  "fl x = (if x < 0 then - flp (- x) else flp x)"

section \<open>The history table\<close>

text \<open>\<open>__init__\<close> on a new database file: the connection is open, the table is empty.\<close>

definition init :: "dataframe list \<Rightarrow> state" where
  "init h = \<lparr>conn_open = True, adjustments = [], sqlite_sequence = 0, heap = h\<rparr>"

text \<open>
  \<open>create_table\<close>: \<open>CREATE TABLE IF NOT EXISTS adjustments\<close>. The table of a state is
  there from \<open>__init__\<close> on, so the statement changes nothing; on a closed connection
  sqlite3 raises.
\<close>

definition create_table :: "state \<Rightarrow> (error + unit) \<times> state" where
  "create_table s = (if \<not> conn_open s then (Inl ProgrammingError, s) else (Inr (), s))"

definition MAX_ROWID :: int where
  "MAX_ROWID = 9223372036854775807"

definition max_rowid :: "adjustment list \<Rightarrow> int" where
  "max_rowid rows = foldr (\<lambda>r m. max (id_col r) m) rows 0"

text \<open>
  The key SQLite gives a new row of an \<open>INTEGER PRIMARY KEY AUTOINCREMENT\<close> table: one
  more than the largest key the table holds or ever held; the insert fails when that
  largest key is the largest 64-bit integer.
\<close>

definition new_rowid :: "adjustment list \<Rightarrow> int \<Rightarrow> int option" where
  "new_rowid rows seq =
     (if seq = MAX_ROWID \<or> (rows \<noteq> [] \<and> MAX_ROWID \<le> max_rowid rows) then None
      else Some (max (if rows = [] then 1 else max_rowid rows + 1) (seq + 1)))"

text \<open>
  \<open>with self.conn: self.conn.execute('INSERT INTO adjustments ...')\<close>: on a closed
  connection sqlite3 raises; a failed write is rolled back and the exception passes on;
  otherwise the row is appended and committed.
\<close>

definition insert_adjustment :: "rat \<Rightarrow> string \<Rightarrow> string \<Rightarrow> bool \<Rightarrow> state \<Rightarrow> error + state" where
  "insert_adjustment v opn ts fault s =
     (if \<not> conn_open s then Inl ProgrammingError
      else if fault then Inl OperationalError
      else (case new_rowid (adjustments s) (sqlite_sequence s) of
              None \<Rightarrow> Inl OperationalError
            | Some i \<Rightarrow>
                Inr (s\<lparr>adjustments := adjustments s @
                          [\<lparr>id_col = i, random_value_col = v, operation_col = opn,
                            timestamp_col = ts\<rparr>],
                       sqlite_sequence := i\<rparr>)))"

text \<open>
  \<open>np.random.uniform(low, high)\<close> is \<open>low + (high - low) * random_sample()\<close>, the
  difference, the product and the sum each rounded (the product and the sum are two
  operations, not one fused operation).
\<close>

definition uniform :: "rat \<Rightarrow> rat \<Rightarrow> rat \<Rightarrow> rat" where
  "uniform low high u = fl (low + fl (fl (high - low) * u))"

text \<open>\<open>np.random.choice(a)\<close> returns the element of \<open>a\<close> at the index it draws.\<close>

definition choice :: "'a list \<Rightarrow> nat \<Rightarrow> 'a" where
  "choice a i = a ! i"

text \<open>
  \<open>generate_and_store_random\<close>. The literals \<open>0.01\<close> and \<open>0.1\<close> are the floats nearest
  to these numbers.
\<close>

definition generate_and_store_random :: "env \<Rightarrow> state \<Rightarrow> (error + rat \<times> string) \<times> state" where
  "generate_and_store_random e s =
     (let random_value = uniform (fl (1 / 100)) (fl (1 / 10)) (random_sample e);
          operation = choice [''+'', ''-''] (choice_index e)
      in case insert_adjustment random_value operation (now e) (write_fault e) s of
           Inl err \<Rightarrow> (Inl err, s)
         | Inr s' \<Rightarrow> (Inr (random_value, operation), s'))"

text \<open>
  The draws numpy can make: a sample in \<open>[0, 1)\<close>, which is a multiple of \<open>2^-53\<close>, and an
  index into the two-element list.
\<close>

definition valid_draw :: "env \<Rightarrow> bool" where
  "valid_draw e \<longleftrightarrow>
     0 \<le> random_sample e \<and> random_sample e < 1 \<and>
     of_int \<lfloor>random_sample e * 2 ^ 53\<rfloor> = random_sample e * 2 ^ 53 \<and>
     choice_index e < 2"

text \<open>
  \<open>SELECT * FROM adjustments ORDER BY timestamp DESC LIMIT 10\<close>. The timestamps are
  stored as text and compared as text. SQLite scans the table in rowid order and files
  each row behind the rows whose timestamp is not smaller; the query names no second
  sort key.
\<close>

fun insort_desc :: "adjustment \<Rightarrow> adjustment list \<Rightarrow> adjustment list" where
  "insort_desc r [] = [r]"
| "insort_desc r (x # xs) =
     (if timestamp_col x < timestamp_col r then r # x # xs else x # insort_desc r xs)"

definition order_by_timestamp_desc :: "adjustment list \<Rightarrow> adjustment list" where
  "order_by_timestamp_desc rows = foldl (\<lambda>sorted r. insort_desc r sorted) [] rows"

definition get_adjustment_history :: "state \<Rightarrow> (error + adjustment list) \<times> state" where
  "get_adjustment_history s =
     (if \<not> conn_open s then (Inl ProgrammingError, s)
      else (Inr (take 10 (order_by_timestamp_desc (adjustments s))), s))"

definition close :: "state \<Rightarrow> state" where
  "close s = s\<lparr>conn_open := False\<rparr>"

section \<open>The adjustment of a data frame\<close>

text \<open>\<open>df.loc[idx, col]\<close> for a row label of the frame: a missing column raises.\<close>

definition loc :: "dataframe \<Rightarrow> nat \<Rightarrow> string \<Rightarrow> error + cell" where
  "loc df idx col = (case (df ! idx) col of None \<Rightarrow> Inl KeyError | Some v \<Rightarrow> Inr v)"

text \<open>\<open>df.loc[idx, col] = v\<close>.\<close>

definition set_loc :: "dataframe \<Rightarrow> nat \<Rightarrow> string \<Rightarrow> cell \<Rightarrow> dataframe" where
  "set_loc df idx col v = df[idx := (df ! idx)(col \<mapsto> v)]"

text \<open>\<open>current_value + random_value\<close> and \<open>current_value - random_value\<close>.\<close>

fun add_cell :: "cell \<Rightarrow> rat \<Rightarrow> error + cell" where
  "add_cell (Num x) r = Inr (Num (fl (x + r)))"
| "add_cell NaN r = Inr NaN"
| "add_cell (Txt t) r = Inl TypeError"

fun sub_cell :: "cell \<Rightarrow> rat \<Rightarrow> error + cell" where
  "sub_cell (Num x) r = Inr (Num (fl (x - r)))"
| "sub_cell NaN r = Inr NaN"
| "sub_cell (Txt t) r = Inl TypeError"

text \<open>\<open>a < b\<close> in Python: false when either side is NaN.\<close>

fun lt_cell :: "cell \<Rightarrow> cell \<Rightarrow> error + bool" where
  "lt_cell (Num x) (Num y) = Inr (x < y)"
| "lt_cell (Txt t) (Txt u) = Inr (t < u)"
| "lt_cell (Txt t) b = Inl TypeError"
| "lt_cell a (Txt u) = Inl TypeError"
| "lt_cell a b = Inr False"

text \<open>
  Python's \<open>min(a, b)\<close> keeps \<open>a\<close> unless \<open>b < a\<close>; \<open>max(a, b)\<close> keeps \<open>a\<close> unless
  \<open>b > a\<close>.
\<close>

definition py_min :: "cell \<Rightarrow> cell \<Rightarrow> error + cell" where
  "py_min a b = (case lt_cell b a of Inl e \<Rightarrow> Inl e | Inr c \<Rightarrow> Inr (if c then b else a))"

definition py_max :: "cell \<Rightarrow> cell \<Rightarrow> error + cell" where
  "py_max a b = (case lt_cell a b of Inl e \<Rightarrow> Inl e | Inr c \<Rightarrow> Inr (if c then b else a))"

text \<open>
  Rounding a numpy float to \<open>ndigits\<close> decimals, as numpy does it: multiply by
  \<open>10 ^ ndigits\<close>, round to the nearest integer, divide by \<open>10 ^ ndigits\<close>, each of the
  two operations a float operation.
\<close>

definition round_digits :: "nat \<Rightarrow> rat \<Rightarrow> rat" where
  "round_digits ndigits x =
     fl (of_int (round_half_even (fl (x * 10 ^ ndigits))) / 10 ^ ndigits)"

text \<open>\<open>round(v, ndigits)\<close>.\<close>

fun py_round :: "cell \<Rightarrow> nat \<Rightarrow> error + cell" where
  "py_round (Num x) ndigits = Inr (Num (round_digits ndigits x))"
| "py_round NaN ndigits = Inr NaN"
| "py_round (Txt t) ndigits = Inl TypeError"

text \<open>The body of the inner loop: from \<open>current_value\<close> to the value written back.\<close>

definition new_cell :: "string \<Rightarrow> rat \<Rightarrow> cell \<Rightarrow> error + cell" where
  "new_cell operation random_value current_value =
     (case (if operation = ''+'' then add_cell current_value random_value
            else sub_cell current_value random_value) of
        Inl e \<Rightarrow> Inl e
      | Inr new_value \<Rightarrow>
          (case py_min (Num 1) new_value of
             Inl e \<Rightarrow> Inl e
           | Inr m \<Rightarrow>
               (case py_max (Num 0) m of
                  Inl e \<Rightarrow> Inl e
                | Inr new_value' \<Rightarrow> py_round new_value' 5)))"

text \<open>
  \<open>for idx in df.index\<close>: reads the frame at address \<open>df\<close>, writes the frame at address
  \<open>adjusted_df\<close>. An exception leaves the loop with the heap as it is then.
\<close>

fun adjust_rows ::
  "string \<Rightarrow> rat \<Rightarrow> nat \<Rightarrow> nat \<Rightarrow> string \<Rightarrow> nat list \<Rightarrow> dataframe list \<Rightarrow> (error + unit) \<times> dataframe list" where
  "adjust_rows operation random_value df adjusted_df col [] h = (Inr (), h)"
| "adjust_rows operation random_value df adjusted_df col (idx # idxs) h =
     (case loc (h ! df) idx col of
        Inl e \<Rightarrow> (Inl e, h)
      | Inr current_value \<Rightarrow>
          (case new_cell operation random_value current_value of
             Inl e \<Rightarrow> (Inl e, h)
           | Inr v \<Rightarrow>
               adjust_rows operation random_value df adjusted_df col idxs
                 (h[adjusted_df := set_loc (h ! adjusted_df) idx col v])))"

text \<open>\<open>for col in selected_features\<close>.\<close>

fun adjust_cols ::
  "string \<Rightarrow> rat \<Rightarrow> nat \<Rightarrow> nat \<Rightarrow> string list \<Rightarrow> dataframe list \<Rightarrow> (error + unit) \<times> dataframe list" where
  "adjust_cols operation random_value df adjusted_df [] h = (Inr (), h)"
| "adjust_cols operation random_value df adjusted_df (col # cols) h =
     (case adjust_rows operation random_value df adjusted_df col [0..<length (h ! df)] h of
        (Inl e, h') \<Rightarrow> (Inl e, h')
      | (Inr u, h') \<Rightarrow> adjust_cols operation random_value df adjusted_df cols h')"

text \<open>
  \<open>adjust_dataframe(df, selected_features)\<close>: \<open>df\<close> is the address of the caller's
  frame; the copy is a new object at the next free address, which the call returns
  with the value and the operation drawn.
\<close>

definition adjust_dataframe ::
  "env \<Rightarrow> nat \<Rightarrow> string list \<Rightarrow> state \<Rightarrow> (error + nat \<times> rat \<times> string) \<times> state" where
  "adjust_dataframe e df selected_features s =
     (let adjusted_df = length (heap s);
          s1 = s\<lparr>heap := heap s @ [heap s ! df]\<rparr>
      in case generate_and_store_random e s1 of
           (Inl err, s2) \<Rightarrow> (Inl err, s2)
         | (Inr (random_value, operation), s2) \<Rightarrow>
             (case adjust_cols operation random_value df adjusted_df selected_features (heap s2) of
                (Inl err, h) \<Rightarrow> (Inl err, s2\<lparr>heap := h\<rparr>)
              | (Inr u, h) \<Rightarrow> (Inr (adjusted_df, random_value, operation), s2\<lparr>heap := h\<rparr>)))"

section \<open>The caller and the calls on one store\<close>

text \<open>
  The button handler of \<open>main\<close>: an empty selection is answered with a warning and
  the adjuster is not called; an exception of the adjuster is caught and shown.
\<close>

datatype shown = Warning | Adjusted nat rat string | ErrorShown error

definition on_apply :: "env \<Rightarrow> nat \<Rightarrow> string list \<Rightarrow> state \<Rightarrow> shown \<times> state" where
  "on_apply e feature_selection selected_features s =
     (if selected_features = [] then (Warning, s)
      else (case adjust_dataframe e feature_selection selected_features s of
              (Inl err, s') \<Rightarrow> (ErrorShown err, s')
            | (Inr (adjusted_data, random_value, operation), s') \<Rightarrow>
                (Adjusted adjusted_data random_value operation, s')))"

text \<open>The methods a caller can invoke on a store, and the state each leaves.\<close>

datatype call =
    CreateTable
  | Generate env
  | Adjust env nat "string list"
  | History
  | Close

fun step :: "call \<Rightarrow> state \<Rightarrow> state" where
  "step CreateTable s = snd (create_table s)"
| "step (Generate e) s = snd (generate_and_store_random e s)"
| "step (Adjust e df selected_features) s = snd (adjust_dataframe e df selected_features s)"
| "step History s = snd (get_adjustment_history s)"
| "step Close s = close s"

definition run :: "call list \<Rightarrow> state \<Rightarrow> state" where
  "run cs s = foldl (\<lambda>t c. step c t) s cs"

section \<open>The transform as the specification words it\<close>

text \<open>
  The specification's \<open>clamp(value, 0, 1)\<close> and its \<open>sign * magnitude\<close>, to compare
  with what \<open>new_cell\<close> computes.
\<close>

definition clamp :: "rat \<Rightarrow> rat \<Rightarrow> rat \<Rightarrow> rat" where
  "clamp x lo hi = max lo (min hi x)"

definition signed :: "string \<Rightarrow> rat \<Rightarrow> rat" where
  "signed sign magnitude = (if sign = ''+'' then magnitude else - magnitude)"

text \<open>
  The adjusted table in one piece: a cell of a selected column is replaced by its new
  value, every other cell is kept.
\<close>

definition adjusted_cell :: "string \<Rightarrow> rat \<Rightarrow> string list \<Rightarrow> row \<Rightarrow> row" where
  "adjusted_cell sign magnitude selected r col =
     (if col \<in> set selected
      then (case r col of
              None \<Rightarrow> None
            | Some current \<Rightarrow>
                (case new_cell sign magnitude current of Inl e \<Rightarrow> None | Inr v \<Rightarrow> Some v))
      else r col)"

definition adjusted_table :: "string \<Rightarrow> rat \<Rightarrow> string list \<Rightarrow> dataframe \<Rightarrow> dataframe" where
  "adjusted_table sign magnitude selected df = map (adjusted_cell sign magnitude selected) df"


text \<open>
  Newest first as the specification words it: timestamp descending, equal timestamps by
  id descending.
\<close>

definition newer :: "adjustment \<Rightarrow> adjustment \<Rightarrow> bool" where
  "newer x y \<longleftrightarrow>
     timestamp_col y < timestamp_col x \<or>
     (timestamp_col x = timestamp_col y \<and> id_col y < id_col x)"

text \<open>
  The order the query delivers: timestamp descending, equal timestamps in the order of
  the table scan, which is by ascending id.
\<close>

definition delivered_before :: "adjustment \<Rightarrow> adjustment \<Rightarrow> bool" where
  "delivered_before x y \<longleftrightarrow>
     timestamp_col y < timestamp_col x \<or>
     (timestamp_col x = timestamp_col y \<and> id_col x < id_col y)"

definition ids_increasing :: "adjustment list \<Rightarrow> bool" where
  "ids_increasing rows \<longleftrightarrow> sorted_wrt (<) (map id_col rows)"

section \<open>A small table, some draws and the stores they leave\<close>

text \<open>
  One row with the identifier column \<open>id\<close> and the feature columns \<open>f1 = 0.015625\<close> and
  \<open>f2 = 0.5\<close>.
\<close>

definition table_A :: dataframe where
  "table_A = [[''id'' \<mapsto> Txt ''a'', ''f1'' \<mapsto> Num (1 / 64), ''f2'' \<mapsto> Num (1 / 2)]]"

text \<open>
  A draw of the largest sample \<open>1 - 2^-53\<close> with the operation \<open>-\<close>, and the float
  \<open>np.random.uniform\<close> makes of it, which prints as \<open>0.09999999999999999\<close>.
\<close>

definition draw_minus :: env where
  "draw_minus = \<lparr>random_sample = 9007199254740991 / 9007199254740992, choice_index = 1,
                  now = ''2026-11-04T21:30:00'', write_fault = False\<rparr>"

definition drawn_minus :: rat where
  "drawn_minus = 7205759403792793 / 72057594037927936"

text \<open>
  A draw of the sample \<open>1/64\<close> with the operation \<open>+\<close> at the same instant, and its
  float, which prints as \<open>0.01140625\<close>.
\<close>

definition draw_plus :: env where
  "draw_plus = \<lparr>random_sample = 1 / 64, choice_index = 0, now = ''2026-11-04T21:30:00'',
                 write_fault = False\<rparr>"

definition drawn_plus :: rat where
  "drawn_plus = 1643813863990231 / 144115188075855872"

text \<open>
  An earlier draw, of the sample \<open>0\<close> with the operation \<open>+\<close>, and its float, the
  float of the literal \<open>0.01\<close>.
\<close>

definition draw_early :: env where
  "draw_early = \<lparr>random_sample = 0, choice_index = 0, now = ''2026-11-04T21:29:59.500000'',
                  write_fault = False\<rparr>"

definition drawn_early :: rat where
  "drawn_early = 5764607523034235 / 576460752303423488"

text \<open>The store after the early draw is recorded, with the table on the heap.\<close>

definition after_early :: state where
  "after_early = snd (generate_and_store_random draw_early (init [table_A]))"

text \<open>
  The store after \<open>draw_minus\<close> is recorded on a new database, and the store after
  \<open>draw_plus\<close> is recorded next, at the same instant.
\<close>

definition after_minus :: state where
  "after_minus = snd (generate_and_store_random draw_minus (init [table_A]))"

definition same_instant :: state where
  "same_instant = snd (generate_and_store_random draw_plus after_minus)"

text \<open>The draw \<open>draw_minus\<close> made a minute later.\<close>

definition draw_minus_later :: env where
  "draw_minus_later = draw_minus\<lparr>now := ''2026-11-04T21:31:00''\<rparr>"

text \<open>A draw that meets storage refusing the write.\<close>

definition draw_fault :: env where
  "draw_fault = \<lparr>random_sample = 1 / 64, choice_index = 0, now = ''2026-11-04T21:31:00'',
                  write_fault = True\<rparr>"


section \<open>Binary64 arithmetic: rounding is monotone, and how to evaluate it\<close>

lemma pow2_pos: "0 < power_int (2::rat) e"
  by (simp add: zero_less_power_int)

lemma pow2_mono: "a \<le> b \<Longrightarrow> power_int (2::rat) a \<le> power_int 2 b"
  by (rule power_int_increasing) simp_all

lemma pow2_Suc: "power_int (2::rat) (e + 1) = 2 * power_int 2 e"
  by (simp add: power_int_add)

lemma scan_expo_range: "e - int n \<le> scan_expo n e x \<and> scan_expo n e x \<le> e"
proof (induction n arbitrary: e)
  case 0
  then show ?case by simp
next
  case (Suc n)
  from Suc.IH [of "e - 1"] show ?case by simp
qed

lemma scan_expo_below:
  "scan_expo n e x < e \<Longrightarrow> x < power_int 2 (scan_expo n e x + 1)"
proof (induction n arbitrary: e)
  case 0
  then show ?case by simp
next
  case (Suc n)
  from Suc.prems have no: "\<not> power_int 2 e \<le> x" and
    r: "scan_expo (Suc n) e x = scan_expo n (e - 1) x"
    by (auto split: if_splits)
  show ?case
  proof (cases "scan_expo n (e - 1) x < e - 1")
    case True
    from Suc.IH [OF True] r show ?thesis by simp
  next
    case False
    with scan_expo_range [of "e - 1" n x] have "scan_expo n (e - 1) x = e - 1" by simp
    with no r show ?thesis by simp
  qed
qed

lemma scan_expo_above:
  "e - int n < scan_expo n e x \<Longrightarrow> power_int 2 (scan_expo n e x) \<le> x"
proof (induction n arbitrary: e)
  case 0
  then show ?case by simp
next
  case (Suc n)
  show ?case
  proof (cases "power_int 2 e \<le> x")
    case True
    then show ?thesis by simp
  next
    case False
    with Suc.prems have "e - 1 - int n < scan_expo n (e - 1) x" by simp
    from Suc.IH [OF this] False show ?thesis by simp
  qed
qed

lemma expo_range: "- 1022 \<le> expo x \<and> expo x \<le> 1023"
  using scan_expo_range [of 1023 2045 x] by (simp add: expo_def)

lemma expo_below: "expo x < 1023 \<Longrightarrow> x < power_int 2 (expo x + 1)"
  unfolding expo_def by (rule scan_expo_below)

lemma expo_above: "- 1022 < expo x \<Longrightarrow> power_int 2 (expo x) \<le> x"
  unfolding expo_def by (rule scan_expo_above) simp

lemma expo_mono:
  assumes "x \<le> y"
  shows "expo x \<le> expo y"
proof (rule ccontr)
  assume "\<not> expo x \<le> expo y"
  then have lt: "expo y < expo x" by simp
  with expo_range [of x] have "expo y < 1023" by simp
  then have "y < power_int 2 (expo y + 1)" by (rule expo_below)
  also have "\<dots> \<le> power_int 2 (expo x)" using lt by (intro pow2_mono) simp
  also have "\<dots> \<le> x" using lt expo_range [of y] by (intro expo_above) simp
  finally show False using assms by simp
qed

lemma expo_eqI:
  assumes "- 1022 \<le> e" "e \<le> 1023" "power_int 2 e \<le> x" "x < power_int 2 (e + 1)"
  shows "expo x = e"
proof (rule antisym)
  show "expo x \<le> e"
  proof (rule ccontr)
    assume "\<not> expo x \<le> e"
    then have lt: "e < expo x" by simp
    with assms(1) have "power_int 2 (expo x) \<le> x" by (intro expo_above) simp
    moreover have "power_int (2::rat) (e + 1) \<le> power_int 2 (expo x)"
      using lt by (intro pow2_mono) simp
    ultimately show False using assms(4) by simp
  qed
  show "e \<le> expo x"
  proof (rule ccontr)
    assume "\<not> e \<le> expo x"
    then have lt: "expo x < e" by simp
    with assms(2) have "x < power_int 2 (expo x + 1)" by (intro expo_below) simp
    also have "\<dots> \<le> power_int 2 e" using lt by (intro pow2_mono) simp
    finally show False using assms(3) by simp
  qed
qed

lemma ulp_pos: "0 < ulp x"
  by (simp add: ulp_def pow2_pos)

lemma round_half_even_of_int: "round_half_even (of_int n) = n"
  by (simp add: round_half_even_def)

lemma round_half_even_lower:
  assumes "of_int a \<le> x"
  shows "a \<le> round_half_even x"
proof -
  have "a \<le> \<lfloor>x\<rfloor>" using assms by (simp add: le_floor_iff)
  then show ?thesis by (auto simp: round_half_even_def Let_def)
qed

lemma round_half_even_upper:
  assumes "x \<le> of_int b"
  shows "round_half_even x \<le> b"
proof (cases "\<lfloor>x\<rfloor> = b")
  case True
  with assms have "x = of_int b"
    using of_int_floor_le [of x] by simp
  then show ?thesis by (simp add: round_half_even_of_int)
next
  case False
  moreover have "\<lfloor>x\<rfloor> \<le> b" using assms by (simp add: floor_le_iff)
  ultimately have "\<lfloor>x\<rfloor> + 1 \<le> b" by simp
  then show ?thesis by (auto simp: round_half_even_def Let_def)
qed

lemma round_half_even_near: "\<bar>of_int (round_half_even x) - x\<bar> \<le> 1 / 2"
proof -
  have "of_int \<lfloor>x\<rfloor> \<le> x" "x < of_int \<lfloor>x\<rfloor> + 1" by linarith+
  then show ?thesis by (auto simp: round_half_even_def Let_def)
qed

lemma round_half_even_tie:
  assumes "\<bar>of_int (round_half_even x) - x\<bar> = 1 / 2"
  shows "even (round_half_even x)"
proof -
  have "of_int \<lfloor>x\<rfloor> \<le> x" "x < of_int \<lfloor>x\<rfloor> + 1" by linarith+
  with assms show ?thesis
    by (auto simp: round_half_even_def Let_def split: if_splits)
qed

lemma round_half_even_eqI:
  assumes "\<bar>x - of_int n\<bar> < 1 / 2"
  shows "round_half_even x = n"
proof -
  have "\<bar>(of_int (round_half_even x) :: rat) - of_int n\<bar> < 1"
    using round_half_even_near [of x] assms by linarith
  then have "\<bar>(of_int (round_half_even x - n) :: rat)\<bar> < 1" by simp
  then have "\<bar>round_half_even x - n\<bar> < 1"
    by (metis of_int_abs of_int_less_1_iff)
  then show ?thesis by simp
qed

lemma round_half_even_mono:
  assumes "x \<le> y"
  shows "round_half_even x \<le> round_half_even y"
proof (cases "\<lfloor>x\<rfloor> = \<lfloor>y\<rfloor>")
  case True
  with assms show ?thesis by (auto simp: round_half_even_def Let_def)
next
  case False
  with assms have "\<lfloor>x\<rfloor> + 1 \<le> \<lfloor>y\<rfloor>"
    using floor_mono [OF assms] by simp
  moreover have "round_half_even x \<le> \<lfloor>x\<rfloor> + 1"
    by (auto simp: round_half_even_def Let_def)
  moreover have "\<lfloor>y\<rfloor> \<le> round_half_even y"
    by (auto simp: round_half_even_def Let_def)
  ultimately show ?thesis by simp
qed

lemma flp_0: "flp 0 = 0"
  by (simp add: flp_def round_half_even_def)

lemma flp_nonneg:
  assumes "0 \<le> x"
  shows "0 \<le> flp x"
proof -
  have "of_int 0 \<le> x / ulp x" using assms ulp_pos [of x] by simp
  then have "0 \<le> round_half_even (x / ulp x)" by (rule round_half_even_lower)
  then show ?thesis using ulp_pos [of x] by (simp add: flp_def)
qed

lemma flp_le_binade:
  assumes "expo x < 1023"
  shows "flp x \<le> power_int 2 (expo x + 1)"
proof -
  let ?e = "expo x"
  have q: "power_int (2::rat) (?e + 1) / power_int 2 (?e - 52) = 2 ^ 53"
    using power_int_diff [of "2::rat" "?e + 1" "?e - 52"] by simp
  have "x < power_int 2 (?e + 1)" using assms by (rule expo_below)
  then have "x / ulp x \<le> power_int 2 (?e + 1) / ulp x"
    using ulp_pos [of x] by (simp add: divide_le_cancel)
  also have "\<dots> = of_int (2 ^ 53)" using q by (simp add: ulp_def)
  finally have "round_half_even (x / ulp x) \<le> 2 ^ 53" by (rule round_half_even_upper)
  then have "(of_int (round_half_even (x / ulp x)) :: rat) \<le> of_int (2 ^ 53)"
    by (simp only: of_int_le_iff)
  then have "flp x \<le> of_int (2 ^ 53) * ulp x"
    using ulp_pos [of x] by (simp add: flp_def)
  also have "\<dots> = power_int 2 (?e + 1)"
    using q pow2_pos [of "?e - 52"] by (simp add: ulp_def field_simps)
  finally show ?thesis .
qed

lemma flp_ge_binade:
  assumes "- 1022 < expo x"
  shows "power_int 2 (expo x) \<le> flp x"
proof -
  let ?e = "expo x"
  have q: "power_int (2::rat) ?e / power_int 2 (?e - 52) = 2 ^ 52"
    using power_int_diff [of "2::rat" "?e" "?e - 52"] by simp
  have "power_int 2 ?e \<le> x" using assms by (rule expo_above)
  then have "power_int 2 ?e / ulp x \<le> x / ulp x"
    using ulp_pos [of x] by (simp add: divide_le_cancel)
  then have "of_int (2 ^ 52) \<le> x / ulp x" using q by (simp add: ulp_def)
  then have "2 ^ 52 \<le> round_half_even (x / ulp x)" by (rule round_half_even_lower)
  then have "(of_int (2 ^ 52) :: rat) \<le> of_int (round_half_even (x / ulp x))"
    by (simp only: of_int_le_iff)
  then have "of_int (2 ^ 52) * ulp x \<le> flp x"
    using ulp_pos [of x] by (simp add: flp_def)
  moreover have "of_int (2 ^ 52) * ulp x = power_int 2 ?e"
    using q pow2_pos [of "?e - 52"] by (simp add: ulp_def field_simps)
  ultimately show ?thesis by simp
qed

lemma flp_mono:
  assumes "x \<le> y"
  shows "flp x \<le> flp y"
proof (cases "expo x = expo y")
  case True
  then have u: "ulp x = ulp y" by (simp add: ulp_def)
  have "x / ulp y \<le> y / ulp y"
    using assms ulp_pos [of y] by (simp add: divide_le_cancel)
  then have "round_half_even (x / ulp y) \<le> round_half_even (y / ulp y)"
    by (rule round_half_even_mono)
  then have "(of_int (round_half_even (x / ulp y)) :: rat) \<le>
             of_int (round_half_even (y / ulp y))"
    by (simp only: of_int_le_iff)
  then show ?thesis using ulp_pos [of y] u by (simp add: flp_def)
next
  case False
  with expo_mono [OF assms] have lt: "expo x < expo y" by simp
  with expo_range [of y] expo_range [of x] have "expo x < 1023" "- 1022 < expo y"
    by simp_all
  then have "flp x \<le> power_int 2 (expo x + 1)" "power_int 2 (expo y) \<le> flp y"
    by (simp_all add: flp_le_binade flp_ge_binade)
  moreover have "power_int (2::rat) (expo x + 1) \<le> power_int 2 (expo y)"
    using lt by (intro pow2_mono) simp
  ultimately show ?thesis by simp
qed

lemma fl_0: "fl 0 = 0"
  by (simp add: fl_def flp_0)

lemma fl_minus: "fl (- x) = - fl x"
  by (cases "x = 0") (auto simp: fl_def flp_0)

lemma fl_nonneg: "0 \<le> x \<Longrightarrow> 0 \<le> fl x"
  by (simp add: fl_def flp_nonneg)


lemma fl_mono:
  assumes "x \<le> y"
  shows "fl x \<le> fl y"
proof (cases "x < 0")
  case xn: True
  show ?thesis
  proof (cases "y < 0")
    case True
    with xn assms flp_mono [of "- y" "- x"] show ?thesis by (simp add: fl_def)
  next
    case False
    with xn flp_nonneg [of "- x"] flp_nonneg [of y] show ?thesis by (simp add: fl_def)
  qed
next
  case False
  with assms flp_mono [of x y] show ?thesis by (simp add: fl_def)
qed

lemma fl_eqI:
  assumes "0 \<le> x" and "- 1022 \<le> e" and "e \<le> 1023"
    and "power_int 2 e \<le> x" and "x < power_int 2 (e + 1)"
    and "\<bar>x / power_int 2 (e - 52) - of_int m\<bar> < 1 / 2"
  shows "fl x = of_int m * power_int 2 (e - 52)"
proof -
  have e: "expo x = e" using assms(2-5) by (rule expo_eqI)
  have "round_half_even (x / power_int 2 (e - 52)) = m"
    using assms(6) by (rule round_half_even_eqI)
  with e assms(1) show ?thesis by (simp add: fl_def flp_def ulp_def)
qed

text \<open>What \<open>fl\<close> computes: a multiple of the spacing at its argument, and a nearest one.\<close>

lemma fl_grid: "\<exists>m. fl x = of_int m * ulp \<bar>x\<bar>"
proof (cases "x < 0")
  case True
  then have "fl x = of_int (- round_half_even (- x / ulp (- x))) * ulp \<bar>x\<bar>"
    by (simp add: fl_def flp_def)
  then show ?thesis ..
next
  case False
  then have "fl x = of_int (round_half_even (x / ulp x)) * ulp \<bar>x\<bar>"
    by (simp add: fl_def flp_def)
  then show ?thesis ..
qed

lemma flp_near: "\<bar>flp x - x\<bar> \<le> ulp x / 2"
proof -
  have "flp x - x = (of_int (round_half_even (x / ulp x)) - x / ulp x) * ulp x"
    using ulp_pos [of x] by (simp add: flp_def left_diff_distrib)
  then have "\<bar>flp x - x\<bar> = \<bar>of_int (round_half_even (x / ulp x)) - x / ulp x\<bar> * ulp x"
    using ulp_pos [of x] by (simp add: abs_mult)
  also have "\<dots> \<le> 1 / 2 * ulp x"
    using round_half_even_near [of "x / ulp x"] ulp_pos [of x]
    by (intro mult_right_mono) simp_all
  finally show ?thesis by simp
qed

lemma fl_near: "\<bar>fl x - x\<bar> \<le> ulp \<bar>x\<bar> / 2"
proof (cases "x < 0")
  case True
  then have "\<bar>fl x - x\<bar> = \<bar>flp (- x) - (- x)\<bar>"
    by (simp add: fl_def abs_minus_commute)
  with flp_near [of "- x"] True show ?thesis by simp
next
  case False
  with flp_near [of x] show ?thesis by (simp add: fl_def)
qed

lemma flp_nearest_even:
  "\<exists>m. flp x = of_int m * ulp x \<and> \<bar>of_int m - x / ulp x\<bar> \<le> 1 / 2 \<and>
       (\<bar>of_int m - x / ulp x\<bar> = 1 / 2 \<longrightarrow> even m)"
  using round_half_even_near [of "x / ulp x"] round_half_even_tie [of "x / ulp x"]
  by (auto simp: flp_def)

lemma fl_1: "fl 1 = 1"
  using fl_eqI [of 1 0 "2 ^ 52"] by simp

lemma fl_100000: "fl 100000 = 100000"
  using fl_eqI [of 100000 16 "3125 * 2 ^ 41"] by simp



section \<open>The history table: basic facts\<close>

lemma insert_adjustment_Inr:
  "insert_adjustment v opn ts fault s = Inr s' \<longleftrightarrow>
     conn_open s \<and> \<not> fault \<and>
     (\<exists>i. new_rowid (adjustments s) (sqlite_sequence s) = Some i \<and>
          s' = s\<lparr>adjustments := adjustments s @
                     [\<lparr>id_col = i, random_value_col = v, operation_col = opn,
                       timestamp_col = ts\<rparr>],
                  sqlite_sequence := i\<rparr>)"
  by (auto simp: insert_adjustment_def split: option.splits)

lemma generate_Inr:
  "generate_and_store_random e s = (Inr (m, opn), s') \<longleftrightarrow>
     m = uniform (fl (1 / 100)) (fl (1 / 10)) (random_sample e) \<and>
     opn = choice [''+'', ''-''] (choice_index e) \<and>
     insert_adjustment m opn (now e) (write_fault e) s = Inr s'"
  by (auto simp: generate_and_store_random_def Let_def split: sum.splits)

lemma generate_Inl:
  "generate_and_store_random e s = (Inl err, s') \<longleftrightarrow>
     s' = s \<and>
     insert_adjustment (uniform (fl (1 / 100)) (fl (1 / 10)) (random_sample e))
       (choice [''+'', ''-''] (choice_index e)) (now e) (write_fault e) s = Inl err"
  by (auto simp: generate_and_store_random_def Let_def split: sum.splits)

lemma insert_adjustment_heap:
  "insert_adjustment v opn ts fault (s\<lparr>heap := h\<rparr>) =
     map_sum id (\<lambda>t. t\<lparr>heap := h\<rparr>) (insert_adjustment v opn ts fault s)"
  by (simp add: insert_adjustment_def split: option.splits)

text \<open>
  The floats of the draw: the literals \<open>0.01\<close> and \<open>0.1\<close>, their difference, and the
  product and the sum at the largest sample \<open>1 - 2^-53\<close>.
\<close>

lemma fl_low: "fl (1 / 100) = 5764607523034235 / 576460752303423488"
  using fl_eqI [of "1 / 100" "- 7" 5764607523034235] by simp

lemma fl_high: "fl (1 / 10) = 3602879701896397 / 36028797018963968"
  using fl_eqI [of "1 / 10" "- 4" 7205759403792794] by simp

lemma fl_low_fixed: "fl (5764607523034235 / 576460752303423488) = 5764607523034235 / 576460752303423488"
  using fl_eqI [of "5764607523034235 / 576460752303423488" "- 7" 5764607523034235] by simp

lemma fl_range:
  "fl (3602879701896397 / 36028797018963968 - 5764607523034235 / 576460752303423488) = 6485183463413515 / 72057594037927936"
  using fl_eqI [of "3602879701896397 / 36028797018963968 - 5764607523034235 / 576460752303423488" "- 4" 6485183463413515] by simp

lemma fl_product_max:
  "fl (6485183463413515 / 72057594037927936 * (9007199254740991 / 9007199254740992)) = 3242591731706757 / 36028797018963968"
  using fl_eqI [of "6485183463413515 / 72057594037927936 * (9007199254740991 / 9007199254740992)" "- 4" 6485183463413514] by simp

lemma fl_sum_max:
  "fl (5764607523034235 / 576460752303423488 + 3242591731706757 / 36028797018963968) = 7205759403792793 / 72057594037927936"
  using fl_eqI [of "5764607523034235 / 576460752303423488 + 3242591731706757 / 36028797018963968" "- 4" 7205759403792793] by simp

lemma sample_le_max:
  assumes "(u::rat) < 1" and "of_int \<lfloor>u * 2 ^ 53\<rfloor> = u * 2 ^ 53"
  shows "u \<le> 9007199254740991 / 9007199254740992"
proof -
  have "u * 2 ^ 53 < of_int (2 ^ 53)" using assms(1) by simp
  then have "of_int \<lfloor>u * 2 ^ 53\<rfloor> < (of_int (2 ^ 53) :: rat)" by (simp only: assms(2))
  then have "\<lfloor>u * 2 ^ 53\<rfloor> < 2 ^ 53" by (simp only: of_int_less_iff)
  then have "\<lfloor>u * 2 ^ 53\<rfloor> \<le> 2 ^ 53 - 1" by simp
  then have "(of_int \<lfloor>u * 2 ^ 53\<rfloor> :: rat) \<le> of_int (2 ^ 53 - 1)" by (simp only: of_int_le_iff)
  then have "u * 2 ^ 53 \<le> of_int (2 ^ 53 - 1)" by (simp only: assms(2))
  then show ?thesis by simp
qed

lemma uniform_range:
  assumes "0 \<le> u" and "u \<le> 9007199254740991 / 9007199254740992"
  shows "1 / 100 \<le> uniform (fl (1 / 100)) (fl (1 / 10)) u \<and>
         uniform (fl (1 / 100)) (fl (1 / 10)) u < 1 / 10"
proof -
  let ?L = "5764607523034235 / 576460752303423488 :: rat"
  let ?R = "6485183463413515 / 72057594037927936 :: rat"
  have u: "uniform (fl (1 / 100)) (fl (1 / 10)) u = fl (?L + fl (?R * u))"
    by (simp only: uniform_def fl_low fl_high fl_range)
  have "0 \<le> fl (?R * u)" using assms(1) by (intro fl_nonneg) simp
  then have "fl ?L \<le> fl (?L + fl (?R * u))" by (intro fl_mono) simp
  then have lo: "1 / 100 \<le> fl (?L + fl (?R * u))" by (simp add: fl_low_fixed)
  have "fl (?R * u) \<le> fl (?R * (9007199254740991 / 9007199254740992))"
    using assms(2) by (intro fl_mono) simp
  then have "fl (?R * u) \<le> 3242591731706757 / 36028797018963968" by (simp only: fl_product_max)
  then have "fl (?L + fl (?R * u)) \<le> fl (?L + 3242591731706757 / 36028797018963968)"
    by (intro fl_mono) simp
  then have "fl (?L + fl (?R * u)) \<le> 7205759403792793 / 72057594037927936" by (simp only: fl_sum_max)
  then have hi: "fl (?L + fl (?R * u)) < 1 / 10" by simp
  from lo hi show ?thesis by (simp only: u)
qed

lemma choice_sign:
  "i < 2 \<Longrightarrow> choice [''+'', ''-''] i = ''+'' \<or> choice [''+'', ''-''] i = ''-''"
  by (cases i) (auto simp: choice_def)

lemma max_rowid_ge: "r \<in> set rows \<Longrightarrow> id_col r \<le> max_rowid rows"
  by (induction rows) (auto simp: max_rowid_def)

lemma max_rowid_nonneg: "0 \<le> max_rowid rows"
  by (induction rows) (auto simp: max_rowid_def)

lemma new_rowid_greater:
  assumes "new_rowid rows seq = Some i"
  shows "seq < i \<and> (\<forall>r \<in> set rows. id_col r < i)"
proof (cases "rows = []")
  case True
  with assms show ?thesis
    by (auto simp: new_rowid_def split: if_splits)
next
  case False
  with assms have i: "i = max (max_rowid rows + 1) (seq + 1)"
    by (auto simp: new_rowid_def split: if_splits)
  have "\<forall>r \<in> set rows. id_col r < i"
    using max_rowid_ge [of _ rows] i by fastforce
  then show ?thesis using i by simp
qed

lemma ids_increasing_snoc:
  "ids_increasing (rows @ [r]) \<longleftrightarrow> ids_increasing rows \<and> (\<forall>x \<in> set rows. id_col x < id_col r)"
  by (auto simp: ids_increasing_def sorted_wrt_append)

lemma adjust_dataframe_Inl_generate:
  assumes "generate_and_store_random e s = (Inl err, t)"
  shows "adjust_dataframe e df sel s = (Inl err, s\<lparr>heap := heap s @ [heap s ! df]\<rparr>)"
  using assms
  by (auto simp: adjust_dataframe_def Let_def generate_and_store_random_def insert_adjustment_def
      split: sum.splits option.splits if_splits prod.splits)

section \<open>The loops over the selected cells\<close>

lemma length_set_loc: "length (set_loc d idx col v) = length d"
  by (simp add: set_loc_def)

lemma set_loc_nth:
  "set_loc d idx col v ! i = (if i = idx \<and> idx < length d then (d ! idx)(col \<mapsto> v) else d ! i)"
  by (cases "idx < length d") (auto simp: set_loc_def nth_list_update list_update_beyond)

lemma heap_write_nth:
  "(h[a := f]) ! k = (if k = a \<and> a < length h then f else h ! k)"
  by (cases "a < length h") (auto simp: nth_list_update list_update_beyond)

lemma adjust_rows_frame:
  "adjust_rows opn rv df a col idxs h = (r, h') \<Longrightarrow>
     length h' = length h \<and> (\<forall>k. k \<noteq> a \<longrightarrow> h' ! k = h ! k) \<and>
     length (h' ! a) = length (h ! a) \<and>
     (\<forall>i. i \<notin> set idxs \<longrightarrow> h' ! a ! i = h ! a ! i) \<and>
     (\<forall>i c. c \<noteq> col \<longrightarrow> (h' ! a ! i) c = (h ! a ! i) c)"
proof (induction idxs arbitrary: h)
  case Nil
  then show ?case by simp
next
  case (Cons idx idxs)
  show ?case
  proof (cases "loc (h ! df) idx col")
    case (Inl e)
    with Cons.prems show ?thesis by simp
  next
    case (Inr cur)
    show ?thesis
    proof (cases "new_cell opn rv cur")
      case (Inl e)
      with Cons.prems Inr show ?thesis by simp
    next
      case v: (Inr v)
      let ?h1 = "h[a := set_loc (h ! a) idx col v]"
      from Cons.prems Inr v have "adjust_rows opn rv df a col idxs ?h1 = (r, h')"
        by simp
      from Cons.IH [OF this] show ?thesis
        by (auto simp: heap_write_nth set_loc_nth length_set_loc split: if_splits)
    qed
  qed
qed

lemma adjust_rows_values:
  assumes "adjust_rows opn rv df a col idxs h = (Inr u, h')"
    and "a \<noteq> df" and "a < length h" and "\<forall>idx \<in> set idxs. idx < length (h ! a)"
  shows "\<forall>i \<in> set idxs. \<exists>cur v. (h ! df ! i) col = Some cur \<and> new_cell opn rv cur = Inr v \<and>
           (h' ! a ! i) col = Some v"
  using assms
proof (induction idxs arbitrary: h)
  case Nil
  then show ?case by simp
next
  case (Cons idx idxs)
  from Cons.prems(1) obtain cur where cur: "(h ! df ! idx) col = Some cur"
    by (auto simp: loc_def split: option.splits)
  with Cons.prems(1) obtain v where v: "new_cell opn rv cur = Inr v"
    by (auto simp: loc_def split: sum.splits)
  let ?h1 = "h[a := set_loc (h ! a) idx col v]"
  from Cons.prems(1) cur v have run: "adjust_rows opn rv df a col idxs ?h1 = (Inr u, h')"
    by (simp add: loc_def)
  have h1: "?h1 ! df = h ! df" "length ?h1 = length h" "length (?h1 ! a) = length (h ! a)"
    using Cons.prems(2,3) by (simp_all add: length_set_loc)
  have IH: "\<forall>i \<in> set idxs. \<exists>cur v. (h ! df ! i) col = Some cur \<and> new_cell opn rv cur = Inr v \<and>
           (h' ! a ! i) col = Some v"
    using Cons.IH [OF run] Cons.prems(2,3,4) h1 by simp
  have "\<exists>cur v. (h ! df ! idx) col = Some cur \<and> new_cell opn rv cur = Inr v \<and>
           (h' ! a ! idx) col = Some v"
  proof (cases "idx \<in> set idxs")
    case True
    with IH show ?thesis by blast
  next
    case False
    with adjust_rows_frame [OF run] have "h' ! a ! idx = ?h1 ! a ! idx" by blast
    also have "\<dots> = (h ! a ! idx)(col \<mapsto> v)"
      using Cons.prems(3,4) by (simp add: set_loc_nth)
    finally show ?thesis using cur v by simp
  qed
  with IH show ?case by simp
qed

lemma adjust_rows_returns:
  assumes "\<forall>idx \<in> set idxs. \<exists>cur v. (h ! df ! idx) col = Some cur \<and> new_cell opn rv cur = Inr v"
    and "a \<noteq> df"
  shows "\<exists>h'. adjust_rows opn rv df a col idxs h = (Inr (), h')"
  using assms
proof (induction idxs arbitrary: h)
  case Nil
  then show ?case by simp
next
  case (Cons idx idxs)
  from Cons.prems obtain cur v where
    cv: "(h ! df ! idx) col = Some cur" "new_cell opn rv cur = Inr v"
    by auto
  let ?h1 = "h[a := set_loc (h ! a) idx col v]"
  have "?h1 ! df = h ! df" using Cons.prems(2) by simp
  with Cons.prems have "\<exists>h'. adjust_rows opn rv df a col idxs ?h1 = (Inr (), h')"
    by (intro Cons.IH) auto
  with cv show ?case by (simp add: loc_def)
qed

lemma adjust_cols_frame:
  "adjust_cols opn rv df a cols h = (r, h') \<Longrightarrow> a \<noteq> df \<Longrightarrow>
     length h' = length h \<and> (\<forall>k. k \<noteq> a \<longrightarrow> h' ! k = h ! k) \<and>
     length (h' ! a) = length (h ! a) \<and>
     (\<forall>i c. c \<notin> set cols \<longrightarrow> (h' ! a ! i) c = (h ! a ! i) c)"
proof (induction cols arbitrary: h)
  case Nil
  then show ?case by simp
next
  case (Cons col cols)
  obtain r1 h1 where rows: "adjust_rows opn rv df a col [0..<length (h ! df)] h = (r1, h1)"
    by (cases "adjust_rows opn rv df a col [0..<length (h ! df)] h") auto
  note f1 = adjust_rows_frame [OF rows]
  show ?case
  proof (cases r1)
    case (Inl e)
    with Cons.prems rows have "h' = h1" by simp
    with f1 show ?thesis by simp
  next
    case (Inr u)
    with Cons.prems rows have "adjust_cols opn rv df a cols h1 = (r, h')" by simp
    from Cons.IH [OF this Cons.prems(2)] f1 show ?thesis by simp
  qed
qed

lemma adjust_cols_values:
  assumes "adjust_cols opn rv df a cols h = (Inr u, h')"
    and "a \<noteq> df" and "a < length h" and "length (h ! a) = length (h ! df)"
  shows "\<forall>c \<in> set cols. \<forall>i < length (h ! df).
           \<exists>cur v. (h ! df ! i) c = Some cur \<and> new_cell opn rv cur = Inr v \<and>
             (h' ! a ! i) c = Some v"
  using assms
proof (induction cols arbitrary: h)
  case Nil
  then show ?case by simp
next
  case (Cons col cols)
  obtain r1 h1 where rows: "adjust_rows opn rv df a col [0..<length (h ! df)] h = (r1, h1)"
    by (cases "adjust_rows opn rv df a col [0..<length (h ! df)] h") auto
  with Cons.prems(1) obtain u1 where r1: "r1 = Inr u1"
    by (cases r1) auto
  with Cons.prems(1) rows have rest: "adjust_cols opn rv df a cols h1 = (Inr u, h')"
    by simp
  note f1 = adjust_rows_frame [OF rows]
  have h1: "h1 ! df = h ! df" "a < length h1" "length (h1 ! a) = length (h1 ! df)"
    using f1 Cons.prems(2,3,4) by auto
  have IH: "\<forall>c \<in> set cols. \<forall>i < length (h ! df).
           \<exists>cur v. (h ! df ! i) c = Some cur \<and> new_cell opn rv cur = Inr v \<and>
             (h' ! a ! i) c = Some v"
    using Cons.IH [OF rest Cons.prems(2) h1(2,3)] h1(1) by simp
  have "\<forall>i < length (h ! df).
           \<exists>cur v. (h ! df ! i) col = Some cur \<and> new_cell opn rv cur = Inr v \<and>
             (h' ! a ! i) col = Some v"
  proof (cases "col \<in> set cols")
    case True
    with IH show ?thesis by blast
  next
    case False
    have "\<forall>i \<in> set [0..<length (h ! df)].
            \<exists>cur v. (h ! df ! i) col = Some cur \<and> new_cell opn rv cur = Inr v \<and>
              (h1 ! a ! i) col = Some v"
      using rows r1 Cons.prems(2,3,4) by (intro adjust_rows_values) auto
    moreover have "\<forall>i. (h' ! a ! i) col = (h1 ! a ! i) col"
      using adjust_cols_frame [OF rest Cons.prems(2)] False by blast
    ultimately show ?thesis by simp
  qed
  with IH show ?case by simp
qed

lemma adjust_cols_returns:
  assumes "\<forall>c \<in> set cols. \<forall>i < length (h ! df).
             \<exists>cur v. (h ! df ! i) c = Some cur \<and> new_cell opn rv cur = Inr v"
    and "a \<noteq> df"
  shows "\<exists>h'. adjust_cols opn rv df a cols h = (Inr (), h')"
  using assms
proof (induction cols arbitrary: h)
  case Nil
  then show ?case by simp
next
  case (Cons col cols)
  have "\<exists>h1. adjust_rows opn rv df a col [0..<length (h ! df)] h = (Inr (), h1)"
    using Cons.prems by (intro adjust_rows_returns) auto
  then obtain h1 where rows: "adjust_rows opn rv df a col [0..<length (h ! df)] h = (Inr (), h1)" ..
  have "h1 ! df = h ! df"
    using adjust_rows_frame [OF rows] Cons.prems(2) by simp
  with Cons.prems have "\<exists>h'. adjust_cols opn rv df a cols h1 = (Inr (), h')"
    by (intro Cons.IH) auto
  with rows show ?case by simp
qed



lemma round_digits_1: "round_digits 5 1 = 1"
  using round_half_even_of_int [of 100000] by (simp add: round_digits_def fl_100000 fl_1)

text \<open>
  What \<open>round_digits\<close> computes: the float nearest to a number of \<open>n\<close> decimals, whose
  numerator is an integer nearest to the (float) product of the argument and \<open>10 ^ n\<close>.
\<close>

lemma round_digits_decimal:
  "\<exists>k. round_digits n x = fl (of_int k / 10 ^ n) \<and> \<bar>of_int k - fl (x * 10 ^ n)\<bar> \<le> 1 / 2 \<and>
       (\<bar>of_int k - fl (x * 10 ^ n)\<bar> = 1 / 2 \<longrightarrow> even k)"
  using round_half_even_near [of "fl (x * 10 ^ n)"] round_half_even_tie [of "fl (x * 10 ^ n)"]
  by (auto simp: round_digits_def)

lemma new_cell_Num:
  "new_cell opn rv (Num x) = Inr (Num (round_digits 5 (clamp (fl (x + signed opn rv)) 0 1)))"
  by (auto simp: new_cell_def py_min_def py_max_def clamp_def signed_def)

lemma new_cell_NaN: "new_cell opn rv NaN = Inr (Num 1)"
  by (simp add: new_cell_def py_min_def py_max_def round_digits_1)

lemma new_cell_Txt: "new_cell opn rv (Txt t) = Inl TypeError"
  by (simp add: new_cell_def)



section \<open>What a call of the adjuster does\<close>

lemma adjust_dataframe_cases:
  assumes "adjust_dataframe e df sel s = (r, s')"
  obtains (insert_failed) err where
      "r = Inl err"
      "insert_adjustment (uniform (fl (1 / 100)) (fl (1 / 10)) (random_sample e))
         (choice [''+'', ''-''] (choice_index e)) (now e) (write_fault e) s = Inl err"
      "s' = s\<lparr>heap := heap s @ [heap s ! df]\<rparr>"
  | (inserted) s2 h rc where
      "insert_adjustment (uniform (fl (1 / 100)) (fl (1 / 10)) (random_sample e))
         (choice [''+'', ''-''] (choice_index e)) (now e) (write_fault e) s = Inr s2"
      "adjust_cols (choice [''+'', ''-''] (choice_index e))
         (uniform (fl (1 / 100)) (fl (1 / 10)) (random_sample e)) df (length (heap s)) sel
         (heap s @ [heap s ! df]) = (rc, h)"
      "s' = s2\<lparr>heap := h\<rparr>"
      "r = (case rc of Inl err \<Rightarrow> Inl err
            | Inr u \<Rightarrow> Inr (length (heap s), uniform (fl (1 / 100)) (fl (1 / 10)) (random_sample e),
                              choice [''+'', ''-''] (choice_index e)))"
proof (cases "insert_adjustment (uniform (fl (1 / 100)) (fl (1 / 10)) (random_sample e))
         (choice [''+'', ''-''] (choice_index e)) (now e) (write_fault e) s")
  case (Inl err)
  with assms have a: "r = Inl err" and b: "s' = s\<lparr>heap := heap s @ [heap s ! df]\<rparr>"
    by (auto simp: adjust_dataframe_def generate_and_store_random_def Let_def
        insert_adjustment_heap)
  show ?thesis by (rule insert_failed [OF a Inl b])
next
  case (Inr s2)
  then have hp: "heap s2 = heap s"
    by (auto simp: insert_adjustment_Inr)
  obtain rc h where c: "adjust_cols (choice [''+'', ''-''] (choice_index e))
         (uniform (fl (1 / 100)) (fl (1 / 10)) (random_sample e)) df (length (heap s)) sel
         (heap s @ [heap s ! df]) = (rc, h)"
    by (cases "adjust_cols (choice [''+'', ''-''] (choice_index e))
         (uniform (fl (1 / 100)) (fl (1 / 10)) (random_sample e)) df (length (heap s)) sel
         (heap s @ [heap s ! df])") auto
  from assms Inr c hp have a: "s' = s2\<lparr>heap := h\<rparr>" and
      b: "r = (case rc of Inl err \<Rightarrow> Inl err
            | Inr u \<Rightarrow> Inr (length (heap s), uniform (fl (1 / 100)) (fl (1 / 10)) (random_sample e),
                              choice [''+'', ''-''] (choice_index e)))"
    by (auto simp: adjust_dataframe_def generate_and_store_random_def Let_def
        insert_adjustment_heap split: sum.splits)
  show ?thesis by (rule inserted [OF Inr c a b])
qed

lemma adjust_dataframe_store:
  assumes "fst (adjust_dataframe e df sel s) = Inr (a, m, sg)"
  shows "m = uniform (fl (1 / 100)) (fl (1 / 10)) (random_sample e)"
    and "sg = choice [''+'', ''-''] (choice_index e)"
    and "conn_open s" and "\<not> write_fault e"
    and "\<exists>i. new_rowid (adjustments s) (sqlite_sequence s) = Some i \<and>
           adjustments (snd (adjust_dataframe e df sel s)) = adjustments s @
             [\<lparr>id_col = i, random_value_col = m, operation_col = sg, timestamp_col = now e\<rparr>]"
proof -
  obtain r s' where rs: "adjust_dataframe e df sel s = (r, s')"
    by (cases "adjust_dataframe e df sel s") auto
  with assms have r: "r = Inr (a, m, sg)" by simp
  from rs show "m = uniform (fl (1 / 100)) (fl (1 / 10)) (random_sample e)"
    "sg = choice [''+'', ''-''] (choice_index e)" "conn_open s" "\<not> write_fault e"
    "\<exists>i. new_rowid (adjustments s) (sqlite_sequence s) = Some i \<and>
           adjustments (snd (adjust_dataframe e df sel s)) = adjustments s @
             [\<lparr>id_col = i, random_value_col = m, operation_col = sg, timestamp_col = now e\<rparr>]"
    using r by (cases rule: adjust_dataframe_cases;
        auto simp: insert_adjustment_Inr rs split: sum.splits)+
qed

lemma adjust_dataframe_heap:
  assumes "df < length (heap s)"
  shows "length (heap (snd (adjust_dataframe e df sel s))) = Suc (length (heap s))"
    and "\<forall>k < length (heap s). heap (snd (adjust_dataframe e df sel s)) ! k = heap s ! k"
proof -
  obtain r s' where rs: "adjust_dataframe e df sel s = (r, s')"
    by (cases "adjust_dataframe e df sel s") auto
  have "length (heap s') = Suc (length (heap s)) \<and>
        (\<forall>k < length (heap s). heap s' ! k = heap s ! k)"
    using rs
  proof (cases rule: adjust_dataframe_cases)
    case (insert_failed err)
    then show ?thesis by (simp add: nth_append)
  next
    case (inserted s2 h rc)
    from adjust_cols_frame [OF inserted(2)] assms inserted(3) show ?thesis
      by (auto simp: nth_append)
  qed
  with rs show "length (heap (snd (adjust_dataframe e df sel s))) = Suc (length (heap s))"
    and "\<forall>k < length (heap s). heap (snd (adjust_dataframe e df sel s)) ! k = heap s ! k"
    by simp_all
qed

lemma adjust_dataframe_cells:
  assumes "df < length (heap s)" and "fst (adjust_dataframe e df sel s) = Inr (a, m, sg)"
  shows "a = length (heap s)"
    and "length (heap (snd (adjust_dataframe e df sel s)) ! a) = length (heap s ! df)"
    and "\<forall>i c. c \<notin> set sel \<longrightarrow>
           (heap (snd (adjust_dataframe e df sel s)) ! a ! i) c = (heap s ! df ! i) c"
    and "\<forall>c \<in> set sel. \<forall>i < length (heap s ! df).
           \<exists>cur v. (heap s ! df ! i) c = Some cur \<and> new_cell sg m cur = Inr v \<and>
             (heap (snd (adjust_dataframe e df sel s)) ! a ! i) c = Some v"
proof -
  obtain r s' where rs: "adjust_dataframe e df sel s = (r, s')"
    by (cases "adjust_dataframe e df sel s") auto
  with assms have r: "r = Inr (a, m, sg)" by simp
  let ?h0 = "heap s @ [heap s ! df]"
  let ?a = "length (heap s)"
  have h0: "?a \<noteq> df" "?a < length ?h0" "?h0 ! ?a = heap s ! df" "?h0 ! df = heap s ! df"
    using assms(1) by (simp_all add: nth_append)
  have "a = ?a \<and> length (heap s' ! a) = length (heap s ! df) \<and>
    (\<forall>i c. c \<notin> set sel \<longrightarrow> (heap s' ! a ! i) c = (heap s ! df ! i) c) \<and>
    (\<forall>c \<in> set sel. \<forall>i < length (heap s ! df).
           \<exists>cur v. (heap s ! df ! i) c = Some cur \<and> new_cell sg m cur = Inr v \<and>
             (heap s' ! a ! i) c = Some v)"
    using rs
  proof (cases rule: adjust_dataframe_cases)
    case (insert_failed err)
    with r show ?thesis by simp
  next
    case (inserted s2 h rc)
    from inserted(4) r obtain u where rc: "rc = Inr u" and a: "a = ?a"
      and m: "m = uniform (fl (1 / 100)) (fl (1 / 10)) (random_sample e)"
      and sg: "sg = choice [''+'', ''-''] (choice_index e)"
      by (cases rc) auto
    note c = inserted(2) [unfolded rc, folded m sg]
    from adjust_cols_frame [OF c h0(1)] adjust_cols_values [OF c h0(1,2)] h0(3,4) a inserted(3)
    show ?thesis by simp
  qed
  with rs show "a = length (heap s)"
    and "length (heap (snd (adjust_dataframe e df sel s)) ! a) = length (heap s ! df)"
    and "\<forall>i c. c \<notin> set sel \<longrightarrow>
           (heap (snd (adjust_dataframe e df sel s)) ! a ! i) c = (heap s ! df ! i) c"
    and "\<forall>c \<in> set sel. \<forall>i < length (heap s ! df).
           \<exists>cur v. (heap s ! df ! i) c = Some cur \<and> new_cell sg m cur = Inr v \<and>
             (heap (snd (adjust_dataframe e df sel s)) ! a ! i) c = Some v"
    by auto
qed

lemma adjust_dataframe_table:
  assumes "df < length (heap s)" and "fst (adjust_dataframe e df sel s) = Inr (a, m, sg)"
  shows "heap (snd (adjust_dataframe e df sel s)) ! a = adjusted_table sg m sel (heap s ! df)"
proof (rule nth_equalityI)
  show "length (heap (snd (adjust_dataframe e df sel s)) ! a) =
        length (adjusted_table sg m sel (heap s ! df))"
    using adjust_dataframe_cells(2) [OF assms] by (simp add: adjusted_table_def)
next
  fix i
  assume "i < length (heap (snd (adjust_dataframe e df sel s)) ! a)"
  then have i: "i < length (heap s ! df)"
    using adjust_dataframe_cells(2) [OF assms] by simp
  have "(heap (snd (adjust_dataframe e df sel s)) ! a ! i) c =
        adjusted_cell sg m sel (heap s ! df ! i) c" for c
  proof (cases "c \<in> set sel")
    case True
    with adjust_dataframe_cells(4) [OF assms] i show ?thesis
      by (fastforce simp: adjusted_cell_def)
  next
    case False
    with adjust_dataframe_cells(3) [OF assms] show ?thesis
      by (simp add: adjusted_cell_def)
  qed
  then show "heap (snd (adjust_dataframe e df sel s)) ! a ! i =
             adjusted_table sg m sel (heap s ! df) ! i"
    using i by (auto simp: adjusted_table_def)
qed

lemma new_cell_Inr_iff: "(\<exists>v. new_cell sg m cur = Inr v) \<longleftrightarrow> (\<forall>t. cur \<noteq> Txt t)"
  by (cases cur) (simp_all add: new_cell_Num new_cell_NaN new_cell_Txt)

lemma adjust_dataframe_returns:
  assumes "conn_open s" and "\<not> write_fault e"
    and "new_rowid (adjustments s) (sqlite_sequence s) \<noteq> None"
    and "df < length (heap s)"
    and "\<forall>c \<in> set sel. \<forall>i < length (heap s ! df).
           \<exists>cur. (heap s ! df ! i) c = Some cur \<and> (\<forall>t. cur \<noteq> Txt t)"
  shows "fst (adjust_dataframe e df sel s) =
         Inr (length (heap s), uniform (fl (1 / 100)) (fl (1 / 10)) (random_sample e),
              choice [''+'', ''-''] (choice_index e))"
proof -
  obtain r s' where rs: "adjust_dataframe e df sel s = (r, s')"
    by (cases "adjust_dataframe e df sel s") auto
  let ?h0 = "heap s @ [heap s ! df]"
  let ?a = "length (heap s)"
  have h0: "?a \<noteq> df" "?h0 ! df = heap s ! df"
    using assms(4) by (simp_all add: nth_append)
  from rs have "r = Inr (?a, uniform (fl (1 / 100)) (fl (1 / 10)) (random_sample e),
              choice [''+'', ''-''] (choice_index e))"
  proof (cases rule: adjust_dataframe_cases)
    case (insert_failed err)
    with assms(1,2,3) show ?thesis
      by (auto simp: insert_adjustment_def split: if_splits option.splits)
  next
    case (inserted s2 h rc)
    have "\<exists>cur v. (?h0 ! df ! i) c = Some cur \<and>
            new_cell (choice [''+'', ''-''] (choice_index e))
              (uniform (fl (1 / 100)) (fl (1 / 10)) (random_sample e)) cur = Inr v"
      if "c \<in> set sel" "i < length (?h0 ! df)" for c i
    proof -
      from that h0(2) have "c \<in> set sel" "i < length (heap s ! df)" by simp_all
      with assms(5) obtain cur where
        cur: "(heap s ! df ! i) c = Some cur" "\<forall>t. cur \<noteq> Txt t"
        by blast
      from cur(2) obtain v where "new_cell (choice [''+'', ''-''] (choice_index e))
              (uniform (fl (1 / 100)) (fl (1 / 10)) (random_sample e)) cur = Inr v"
        using new_cell_Inr_iff by blast
      with cur(1) h0(2) show ?thesis by simp
    qed
    then have "\<exists>h'. adjust_cols (choice [''+'', ''-''] (choice_index e))
         (uniform (fl (1 / 100)) (fl (1 / 10)) (random_sample e)) df ?a sel ?h0 = (Inr (), h')"
      using h0(1) by (intro adjust_cols_returns) blast+
    with inserted(2,4) show ?thesis by auto
  qed
  with rs show ?thesis by simp
qed

section \<open>The calls on one store\<close>

lemma fst_eqD: "fst p = a \<Longrightarrow> p = (a, snd p)"
  by (cases p) simp

lemma generate_store:
  "conn_open (snd (generate_and_store_random e s)) = conn_open s \<and>
   heap (snd (generate_and_store_random e s)) = heap s \<and>
   (adjustments (snd (generate_and_store_random e s)) = adjustments s \<or>
    (\<exists>i. new_rowid (adjustments s) (sqlite_sequence s) = Some i \<and>
       adjustments (snd (generate_and_store_random e s)) = adjustments s @
         [\<lparr>id_col = i, random_value_col = uniform (fl (1 / 100)) (fl (1 / 10)) (random_sample e),
           operation_col = choice [''+'', ''-''] (choice_index e), timestamp_col = now e\<rparr>]))"
  by (auto simp: generate_and_store_random_def Let_def insert_adjustment_def
      split: sum.splits option.splits if_splits)

lemma generate_closed:
  "\<not> conn_open s \<Longrightarrow> generate_and_store_random e s = (Inl ProgrammingError, s)"
  by (simp add: generate_and_store_random_def Let_def insert_adjustment_def)

lemma adjust_dataframe_store_any:
  "conn_open (snd (adjust_dataframe e df sel s)) = conn_open s \<and>
   (adjustments (snd (adjust_dataframe e df sel s)) = adjustments s \<or>
    (\<exists>i. new_rowid (adjustments s) (sqlite_sequence s) = Some i \<and>
       adjustments (snd (adjust_dataframe e df sel s)) = adjustments s @
         [\<lparr>id_col = i, random_value_col = uniform (fl (1 / 100)) (fl (1 / 10)) (random_sample e),
           operation_col = choice [''+'', ''-''] (choice_index e), timestamp_col = now e\<rparr>]))"
proof -
  obtain r s' where rs: "adjust_dataframe e df sel s = (r, s')"
    by (cases "adjust_dataframe e df sel s") auto
  then show ?thesis
    by (cases rule: adjust_dataframe_cases) (auto simp: insert_adjustment_Inr rs)
qed

lemma adjust_dataframe_closed:
  assumes "\<not> conn_open s"
  shows "adjust_dataframe e df sel s = (Inl ProgrammingError, s\<lparr>heap := heap s @ [heap s ! df]\<rparr>)"
  using assms adjust_dataframe_Inl_generate [OF generate_closed] by simp

lemma step_store:
  "conn_open (step c s) = (conn_open s \<and> c \<noteq> Close) \<and>
   (adjustments (step c s) = adjustments s \<or>
    (\<exists>i v sg t. new_rowid (adjustments s) (sqlite_sequence s) = Some i \<and>
       adjustments (step c s) = adjustments s @
         [\<lparr>id_col = i, random_value_col = v, operation_col = sg, timestamp_col = t\<rparr>]))"
proof (cases c)
  case CreateTable
  then show ?thesis by (simp add: create_table_def)
next
  case (Generate e)
  with generate_store [of e s] show ?thesis by fastforce
next
  case (Adjust e df sel)
  with adjust_dataframe_store_any [of e df sel s] show ?thesis by fastforce
next
  case History
  then show ?thesis by (simp add: get_adjustment_history_def)
next
  case Close
  then show ?thesis by (simp add: close_def)
qed

lemma step_closed:
  assumes "\<not> conn_open s"
  shows "\<not> conn_open (step c s) \<and> adjustments (step c s) = adjustments s"
proof (cases c)
  case CreateTable
  with assms show ?thesis by (simp add: create_table_def)
next
  case (Generate e)
  with assms show ?thesis by (simp add: generate_closed)
next
  case (Adjust e df sel)
  with assms show ?thesis by (simp add: adjust_dataframe_closed)
next
  case History
  with assms show ?thesis by (simp add: get_adjustment_history_def)
next
  case Close
  with assms show ?thesis by (simp add: close_def)
qed

lemma run_closed:
  "\<not> conn_open s \<Longrightarrow> \<not> conn_open (run cs s) \<and> adjustments (run cs s) = adjustments s"
proof (induction cs arbitrary: s)
  case Nil
  then show ?case by (simp add: run_def)
next
  case (Cons c cs)
  from step_closed [OF Cons.prems, of c] Cons.IH [of "step c s"] show ?case
    by (simp add: run_def)
qed

lemma step_ids_increasing:
  assumes "ids_increasing (adjustments s)"
  shows "ids_increasing (adjustments (step c s))"
  using step_store [of c s] assms new_rowid_greater
  by (auto simp: ids_increasing_snoc)

lemma run_ids_increasing:
  "ids_increasing (adjustments s) \<Longrightarrow> ids_increasing (adjustments (run cs s))"
proof (induction cs arbitrary: s)
  case Nil
  then show ?case by (simp add: run_def)
next
  case (Cons c cs)
  from Cons.IH [OF step_ids_increasing [OF Cons.prems, of c]] show ?case
    by (simp add: run_def)
qed

lemma ids_increasing_distinct: "ids_increasing rows \<Longrightarrow> distinct (map id_col rows)"
  by (simp add: ids_increasing_def strict_sorted_iff)

section \<open>The history query\<close>

lemma set_insort_desc: "set (insort_desc r xs) = insert r (set xs)"
  by (induction xs) auto

lemma length_insort_desc: "length (insort_desc r xs) = Suc (length xs)"
  by (induction xs) auto

lemma order_by_snoc:
  "order_by_timestamp_desc (rows @ [r]) = insort_desc r (order_by_timestamp_desc rows)"
  by (simp add: order_by_timestamp_desc_def)

lemma set_order_by: "set (order_by_timestamp_desc rows) = set rows"
  by (induction rows rule: rev_induct)
     (simp_all add: order_by_snoc set_insort_desc, simp add: order_by_timestamp_desc_def)

lemma length_order_by: "length (order_by_timestamp_desc rows) = length rows"
  by (induction rows rule: rev_induct)
     (simp_all add: order_by_snoc length_insort_desc, simp add: order_by_timestamp_desc_def)

lemma insort_desc_sorted:
  "sorted_wrt (\<lambda>x y. timestamp_col y \<le> timestamp_col x) xs \<Longrightarrow>
   sorted_wrt (\<lambda>x y. timestamp_col y \<le> timestamp_col x) (insort_desc r xs)"
  by (induction xs) (auto simp: set_insort_desc)

lemma order_by_sorted:
  "sorted_wrt (\<lambda>x y. timestamp_col y \<le> timestamp_col x) (order_by_timestamp_desc rows)"
proof (induction rows rule: rev_induct)
  case Nil
  then show ?case by (simp add: order_by_timestamp_desc_def)
next
  case (snoc r rows)
  then show ?case by (simp add: order_by_snoc insort_desc_sorted)
qed

lemma insort_desc_delivered:
  "sorted_wrt delivered_before xs \<Longrightarrow> \<forall>x \<in> set xs. id_col x < id_col r \<Longrightarrow>
   sorted_wrt delivered_before (insort_desc r xs)"
proof (induction xs)
  case Nil
  then show ?case by simp
next
  case (Cons x xs)
  show ?case
  proof (cases "timestamp_col x < timestamp_col r")
    case True
    have "delivered_before r y" if "y \<in> set (x # xs)" for y
    proof -
      from that Cons.prems(1) have "timestamp_col y \<le> timestamp_col x"
        by (auto simp: delivered_before_def)
      then have "timestamp_col y < timestamp_col r"
        using True by (rule le_less_trans)
      then show ?thesis by (simp add: delivered_before_def)
    qed
    with True Cons.prems(1) show ?thesis by simp
  next
    case False
    then have "delivered_before x r"
      using Cons.prems(2) by (auto simp: delivered_before_def)
    moreover have "sorted_wrt delivered_before (insort_desc r xs)"
      using Cons by simp
    ultimately show ?thesis using False Cons.prems(1)
      by (auto simp: set_insort_desc)
  qed
qed

lemma order_by_delivered:
  "ids_increasing rows \<Longrightarrow> sorted_wrt delivered_before (order_by_timestamp_desc rows)"
proof (induction rows rule: rev_induct)
  case Nil
  then show ?case by (simp add: order_by_timestamp_desc_def)
next
  case (snoc r rows)
  then show ?case
    by (simp add: order_by_snoc ids_increasing_snoc insort_desc_delivered set_order_by)
qed

lemma sorted_wrt_take_drop:
  "sorted_wrt P xs \<Longrightarrow> \<forall>x \<in> set (take n xs). \<forall>y \<in> set (drop n xs). P x y"
  using sorted_wrt_append [of P "take n xs" "drop n xs"] by simp

section \<open>Clamping at the bounds, the empty selection, the newest row\<close>



lemma adjusted_cell_empty: "adjusted_cell sg m [] r = r"
  by (rule ext) (simp add: adjusted_cell_def)

lemma adjusted_table_empty: "adjusted_table sg m [] df = df"
  by (simp add: adjusted_table_def adjusted_cell_empty map_idI)

lemma insort_desc_newest:
  "\<forall>x \<in> set xs. timestamp_col x < timestamp_col r \<Longrightarrow> insort_desc r xs = r # xs"
  by (cases xs) auto

lemma history_after_later_insert:
  assumes "conn_open s" and "\<forall>x \<in> set rows. timestamp_col x < timestamp_col ev"
    and "adjustments s = rows @ [ev]"
  shows "\<exists>rest. fst (get_adjustment_history s) = Inr (ev # rest)"
proof -
  have "order_by_timestamp_desc (rows @ [ev]) = ev # order_by_timestamp_desc rows"
    using assms(2) by (simp add: order_by_snoc insort_desc_newest set_order_by)
  with assms(1,3) show ?thesis
    by (simp add: get_adjustment_history_def)
qed

section \<open>Evaluation on the small table\<close>

text \<open>The floats of the three draws.\<close>

lemma uniform_early: "uniform (fl (1 / 100)) (fl (1 / 10)) 0 = drawn_early"
proof -
  have "uniform (fl (1 / 100)) (fl (1 / 10)) 0 = fl (5764607523034235 / 576460752303423488 + fl (6485183463413515 / 72057594037927936 * 0))"
    by (simp only: uniform_def fl_low fl_high fl_range)
  also have "\<dots> = fl (5764607523034235 / 576460752303423488)"
    by (simp add: fl_0)
  finally show ?thesis
    by (simp only: fl_low_fixed drawn_early_def)
qed

lemma uniform_minus:
  "uniform (fl (1 / 100)) (fl (1 / 10)) (9007199254740991 / 9007199254740992) = drawn_minus"
  by (simp only: uniform_def fl_low fl_high fl_range fl_product_max fl_sum_max drawn_minus_def)

lemma fl_product_64th:
  "fl (6485183463413515 / 72057594037927936 * (1 / 64)) = 6485183463413515 / 4611686018427387904"
  using fl_eqI [of "6485183463413515 / 72057594037927936 * (1 / 64)" "- 10" 6485183463413515] by simp

lemma fl_sum_64th:
  "fl (5764607523034235 / 576460752303423488 + 6485183463413515 / 4611686018427387904) = 1643813863990231 / 144115188075855872"
  using fl_eqI [of "5764607523034235 / 576460752303423488 + 6485183463413515 / 4611686018427387904" "- 7" 6575255455960924] by simp

lemma uniform_plus: "uniform (fl (1 / 100)) (fl (1 / 10)) (1 / 64) = drawn_plus"
  by (simp only: uniform_def fl_low fl_high fl_range fl_product_64th fl_sum_64th drawn_plus_def)






text \<open>The three stores.\<close>

lemmas eval_simps =
  generate_and_store_random_def insert_adjustment_def new_rowid_def max_rowid_def
  MAX_ROWID_def Let_def choice_def init_def
  draw_minus_def draw_plus_def draw_early_def draw_fault_def draw_minus_later_def
  uniform_early uniform_minus uniform_plus

lemma after_early_eq:
  "after_early =
     \<lparr>conn_open = True,
      adjustments = [\<lparr>id_col = 1, random_value_col = drawn_early, operation_col = ''+'',
                       timestamp_col = ''2026-11-04T21:29:59.500000''\<rparr>],
      sqlite_sequence = 1, heap = [table_A]\<rparr>"
  by (simp add: after_early_def eval_simps)

lemma after_minus_eq:
  "after_minus =
     \<lparr>conn_open = True,
      adjustments = [\<lparr>id_col = 1, random_value_col = drawn_minus, operation_col = ''-'',
                       timestamp_col = ''2026-11-04T21:30:00''\<rparr>],
      sqlite_sequence = 1, heap = [table_A]\<rparr>"
  by (simp add: after_minus_def eval_simps)

lemma same_instant_eq:
  "same_instant =
     \<lparr>conn_open = True,
      adjustments =
        [\<lparr>id_col = 1, random_value_col = drawn_minus, operation_col = ''-'',
           timestamp_col = ''2026-11-04T21:30:00''\<rparr>,
         \<lparr>id_col = 2, random_value_col = drawn_plus, operation_col = ''+'',
           timestamp_col = ''2026-11-04T21:30:00''\<rparr>],
      sqlite_sequence = 2, heap = [table_A]\<rparr>"
  by (simp add: same_instant_def after_minus_eq eval_simps)

text \<open>
  On a store that holds the small table at address 0, a call of the adjuster with
  feature columns returns.
\<close>

lemma returns_on_table_A:
  assumes "heap s = [table_A]" and "conn_open s" and "\<not> write_fault e"
    and "new_rowid (adjustments s) (sqlite_sequence s) \<noteq> None"
    and "set sel \<subseteq> {''f1'', ''f2''}"
  shows "fst (adjust_dataframe e 0 sel s) =
         Inr (1, uniform (fl (1 / 100)) (fl (1 / 10)) (random_sample e),
              choice [''+'', ''-''] (choice_index e))"
proof -
  have "\<forall>c \<in> set sel. \<forall>i < length (heap s ! 0).
           \<exists>cur. (heap s ! 0 ! i) c = Some cur \<and> (\<forall>t. cur \<noteq> Txt t)"
    using assms(1,5) by (auto simp: table_A_def)
  with assms(2,3,4) have "fst (adjust_dataframe e 0 sel s) =
         Inr (length (heap s), uniform (fl (1 / 100)) (fl (1 / 10)) (random_sample e),
              choice [''+'', ''-''] (choice_index e))"
    using assms(1) by (intro adjust_dataframe_returns) simp_all
  with assms(1) show ?thesis by simp
qed

lemma minus_on_after_early:
  "set sel \<subseteq> {''f1'', ''f2''} \<Longrightarrow>
   fst (adjust_dataframe draw_minus 0 sel after_early) = Inr (1, drawn_minus, ''-'')"
  using returns_on_table_A [of after_early draw_minus sel]
  by (simp add: after_early_eq eval_simps)


lemma plus_on_after_minus:
  "set sel \<subseteq> {''f1'', ''f2''} \<Longrightarrow>
   fst (adjust_dataframe draw_plus 0 sel after_minus) = Inr (1, drawn_plus, ''+'')"
  using returns_on_table_A [of after_minus draw_plus sel]
  by (simp add: after_minus_eq eval_simps)


lemma history_of_open:
  "conn_open s \<Longrightarrow>
   fst (get_adjustment_history s) = Inr (take 10 (order_by_timestamp_desc (adjustments s)))"
  by (simp add: get_adjustment_history_def)

lemma adjust_dataframe_after_insert:
  assumes "fst (generate_and_store_random e s) = Inr (m, sg)"
  shows "\<exists>ev. adjustments (snd (adjust_dataframe e df sel s)) = adjustments s @ [ev] \<and>
           random_value_col ev = m \<and> operation_col ev = sg \<and> timestamp_col ev = now e"
proof -
  from fst_eqD [OF assms] obtain i where
    i: "new_rowid (adjustments s) (sqlite_sequence s) = Some i" and
    m: "m = uniform (fl (1 / 100)) (fl (1 / 10)) (random_sample e)" and
    sg: "sg = choice [''+'', ''-''] (choice_index e)" and
    ok: "conn_open s" "\<not> write_fault e"
    by (auto simp: generate_Inr insert_adjustment_Inr)
  obtain r s' where rs: "adjust_dataframe e df sel s = (r, s')"
    by (cases "adjust_dataframe e df sel s") auto
  then have "adjustments s' = adjustments s @
      [\<lparr>id_col = i, random_value_col = m, operation_col = sg, timestamp_col = now e\<rparr>]"
  proof (cases rule: adjust_dataframe_cases)
    case (insert_failed err)
    with i ok show ?thesis by (simp add: insert_adjustment_def)
  next
    case (inserted s2 h rc)
    with i m sg show ?thesis by (auto simp: insert_adjustment_Inr)
  qed
  with rs show ?thesis by simp
qed

section \<open>The claims\<close>



text \<open>
  Claim C2. Whatever the call of \<open>adjust_dataframe\<close> does, the caller's frame and every
  other frame that existed before the call are as they were: the call writes to its own
  copy only, a new object. In the returned frame, which has the rows of the input, every
  cell outside the selected columns is the cell of the input.
\<close>

theorem unselected_cells_and_input_unchanged:
  assumes "df < length (heap s)"
  shows "heap (snd (adjust_dataframe e df selected s)) ! df = heap s ! df \<and>
         (\<forall>k < length (heap s). heap (snd (adjust_dataframe e df selected s)) ! k = heap s ! k) \<and>
         (\<forall>a magnitude sign.
            fst (adjust_dataframe e df selected s) = Inr (a, magnitude, sign) \<longrightarrow>
              a = length (heap s) \<and> a \<noteq> df \<and>
              length (heap (snd (adjust_dataframe e df selected s)) ! a) = length (heap s ! df) \<and>
              (\<forall>i col. col \<notin> set selected \<longrightarrow>
                 (heap (snd (adjust_dataframe e df selected s)) ! a ! i) col =
                 (heap s ! df ! i) col))"
proof -
  note old = adjust_dataframe_heap(2) [OF assms, of e selected]
  have "a = length (heap s) \<and> a \<noteq> df \<and>
        length (heap (snd (adjust_dataframe e df selected s)) ! a) = length (heap s ! df) \<and>
        (\<forall>i col. col \<notin> set selected \<longrightarrow>
           (heap (snd (adjust_dataframe e df selected s)) ! a ! i) col = (heap s ! df ! i) col)"
    if "fst (adjust_dataframe e df selected s) = Inr (a, m, sg)" for a m sg
    using adjust_dataframe_cells(1,2,3) [OF assms that] assms by simp
  with old assms show ?thesis by blast
qed

text \<open>The theorem at the small table.\<close>

theorem unselected_cells_and_input_unchanged_witness:
  "(0::nat) < length (heap after_early) \<and>
   fst (adjust_dataframe draw_minus 0 [''f1''] after_early) = Inr (1, drawn_minus, ''-'') \<and>
   ''f2'' \<notin> set [''f1''] \<and> ''id'' \<notin> set [''f1''] \<and>
   heap (snd (adjust_dataframe draw_minus 0 [''f1''] after_early)) ! 0 = table_A \<and>
   (heap (snd (adjust_dataframe draw_minus 0 [''f1''] after_early)) ! 1 ! 0) ''f2'' =
     Some (Num (1 / 2)) \<and>
   (heap (snd (adjust_dataframe draw_minus 0 [''f1''] after_early)) ! 1 ! 0) ''id'' =
     Some (Txt ''a'')"
proof -
  have d: "(0::nat) < length (heap after_early)"
    by (simp add: after_early_eq)
  have r: "fst (adjust_dataframe draw_minus 0 [''f1''] after_early) = Inr (1, drawn_minus, ''-'')"
    by (rule minus_on_after_early) simp
  have c: "''f2'' \<notin> set [''f1'']" "''id'' \<notin> set [''f1'']"
    by simp_all
  have old: "heap after_early ! 0 = table_A" "(table_A ! 0) ''f2'' = Some (Num (1 / 2))"
    "(table_A ! 0) ''id'' = Some (Txt ''a'')"
    by (simp_all add: after_early_eq table_A_def)
  note t = unselected_cells_and_input_unchanged [OF d, of draw_minus "[''f1'']"]
  from t old have 0: "heap (snd (adjust_dataframe draw_minus 0 [''f1''] after_early)) ! 0 = table_A"
    by simp
  from t r have "\<forall>i col. col \<notin> set [''f1''] \<longrightarrow>
      (heap (snd (adjust_dataframe draw_minus 0 [''f1''] after_early)) ! 1 ! i) col =
      (heap after_early ! 0 ! i) col"
    by blast
  with c old have
    "(heap (snd (adjust_dataframe draw_minus 0 [''f1''] after_early)) ! 1 ! 0) ''f2'' =
       Some (Num (1 / 2))"
    "(heap (snd (adjust_dataframe draw_minus 0 [''f1''] after_early)) ! 1 ! 0) ''id'' =
       Some (Txt ''a'')"
    by simp_all
  with d r c 0 show ?thesis by blast
qed

text \<open>
  Claim C3 as stated fails. On a store that holds one row, recorded by the draw of
  \<open>0.09999999999999999\<close> and \<open>-\<close>, a call at the same instant returns the value
  \<open>0.01140625\<close> and the operation \<open>+\<close>; the first entry of the history after the call is
  the older row, which does not hold the pair the call returns.
\<close>

theorem newest_row_not_first_on_tie:
  "fst (adjust_dataframe draw_plus 0 [''f2''] after_minus) = Inr (1, drawn_plus, ''+'') \<and>
   fst (get_adjustment_history (snd (adjust_dataframe draw_plus 0 [''f2''] after_minus))) =
     Inr [\<lparr>id_col = 1, random_value_col = drawn_minus, operation_col = ''-'',
            timestamp_col = ''2026-11-04T21:30:00''\<rparr>,
          \<lparr>id_col = 2, random_value_col = drawn_plus, operation_col = ''+'',
            timestamp_col = ''2026-11-04T21:30:00''\<rparr>] \<and>
   drawn_minus \<noteq> drawn_plus"
proof -
  let ?s' = "snd (adjust_dataframe draw_plus 0 [''f2''] after_minus)"
  have r: "fst (adjust_dataframe draw_plus 0 [''f2''] after_minus) = Inr (1, drawn_plus, ''+'')"
    by (rule plus_on_after_minus) simp
  from adjust_dataframe_store(5) [OF r] have rows: "adjustments ?s' =
      [\<lparr>id_col = 1, random_value_col = drawn_minus, operation_col = ''-'',
         timestamp_col = ''2026-11-04T21:30:00''\<rparr>,
       \<lparr>id_col = 2, random_value_col = drawn_plus, operation_col = ''+'',
         timestamp_col = ''2026-11-04T21:30:00''\<rparr>]"
    by (auto simp: after_minus_eq new_rowid_def max_rowid_def MAX_ROWID_def draw_plus_def)
  have "conn_open ?s'"
    using adjust_dataframe_store_any [of draw_plus 0 "[''f2'']" after_minus]
    by (simp add: after_minus_eq)
  then have "fst (get_adjustment_history ?s') =
      Inr (take 10 (order_by_timestamp_desc (adjustments ?s')))"
    by (rule history_of_open)
  then have h: "fst (get_adjustment_history ?s') =
     Inr [\<lparr>id_col = 1, random_value_col = drawn_minus, operation_col = ''-'',
            timestamp_col = ''2026-11-04T21:30:00''\<rparr>,
          \<lparr>id_col = 2, random_value_col = drawn_plus, operation_col = ''+'',
            timestamp_col = ''2026-11-04T21:30:00''\<rparr>]"
    by (simp add: rows order_by_timestamp_desc_def)
  have "drawn_minus \<noteq> drawn_plus"
    by (simp add: drawn_minus_def drawn_plus_def)
  with r h show ?thesis by blast
qed

text \<open>
  Claim C3, amended. A call of \<open>adjust_dataframe\<close> whose insert succeeds has appended
  exactly one row to the table, holding the value and the operation drawn, also when a
  cell makes the call raise afterwards; a call whose insert raises has appended none. For
  a call that returns, the value and the operation of that row, the last of the table,
  are the ones the call returns and the ones the returned frame was computed with; and
  when the clock of the call is later than every timestamp of the table, that row is the
  first the history query returns.
\<close>

theorem adjust_dataframe_records_once:
  assumes "df < length (heap s)"
  shows "(\<forall>m sg. fst (generate_and_store_random e s) = Inr (m, sg) \<longrightarrow>
            (\<exists>ev. adjustments (snd (adjust_dataframe e df selected s)) = adjustments s @ [ev] \<and>
               random_value_col ev = m \<and> operation_col ev = sg \<and> timestamp_col ev = now e)) \<and>
         (\<forall>err. fst (generate_and_store_random e s) = Inl err \<longrightarrow>
            adjustments (snd (adjust_dataframe e df selected s)) = adjustments s) \<and>
         (\<forall>a magnitude sign.
            fst (adjust_dataframe e df selected s) = Inr (a, magnitude, sign) \<longrightarrow>
            (\<exists>ev. adjustments (snd (adjust_dataframe e df selected s)) = adjustments s @ [ev] \<and>
               random_value_col ev = magnitude \<and> operation_col ev = sign \<and>
               timestamp_col ev = now e \<and>
               heap (snd (adjust_dataframe e df selected s)) ! a =
                 adjusted_table (operation_col ev) (random_value_col ev) selected (heap s ! df) \<and>
               ((\<forall>r \<in> set (adjustments s). timestamp_col r < now e) \<longrightarrow>
                  (\<exists>rest. fst (get_adjustment_history (snd (adjust_dataframe e df selected s))) =
                     Inr (ev # rest)))))"
proof -
  let ?s' = "snd (adjust_dataframe e df selected s)"
  have ins: "\<exists>ev. adjustments ?s' = adjustments s @ [ev] \<and>
               random_value_col ev = m \<and> operation_col ev = sg \<and> timestamp_col ev = now e"
    if "fst (generate_and_store_random e s) = Inr (m, sg)" for m sg
    using that by (rule adjust_dataframe_after_insert)
  have fail: "adjustments ?s' = adjustments s"
    if "fst (generate_and_store_random e s) = Inl err" for err
    using adjust_dataframe_Inl_generate [OF fst_eqD [OF that]] by simp
  have ret: "\<exists>ev. adjustments ?s' = adjustments s @ [ev] \<and>
               random_value_col ev = magnitude \<and> operation_col ev = sign \<and>
               timestamp_col ev = now e \<and>
               heap ?s' ! a =
                 adjusted_table (operation_col ev) (random_value_col ev) selected (heap s ! df) \<and>
               ((\<forall>r \<in> set (adjustments s). timestamp_col r < now e) \<longrightarrow>
                  (\<exists>rest. fst (get_adjustment_history ?s') = Inr (ev # rest)))"
    if r: "fst (adjust_dataframe e df selected s) = Inr (a, magnitude, sign)"
    for a magnitude sign
  proof -
    from adjust_dataframe_store(5) [OF r] obtain ev where
      ev: "adjustments ?s' = adjustments s @ [ev]" "random_value_col ev = magnitude"
        "operation_col ev = sign" "timestamp_col ev = now e"
      by auto
    have opn: "conn_open ?s'"
      using adjust_dataframe_store(3) [OF r] adjust_dataframe_store_any [of e df selected s]
      by simp
    have "\<exists>rest. fst (get_adjustment_history ?s') = Inr (ev # rest)"
      if "\<forall>r \<in> set (adjustments s). timestamp_col r < now e"
      using opn _ ev(1) by (rule history_after_later_insert) (use that ev(4) in simp)
    with ev adjust_dataframe_table [OF assms r] show ?thesis
      by auto
  qed
  from ins fail ret show ?thesis by blast
qed

text \<open>
  The theorem at the store after the early draw: a call that returns, and a call that
  meets storage refusing the write.
\<close>

theorem adjust_dataframe_records_once_witness:
  "(0::nat) < length (heap after_early) \<and>
   fst (generate_and_store_random draw_minus after_early) = Inr (drawn_minus, ''-'') \<and>
   fst (generate_and_store_random draw_fault after_early) = Inl OperationalError \<and>
   fst (adjust_dataframe draw_minus 0 [''f1''] after_early) = Inr (1, drawn_minus, ''-'') \<and>
   map timestamp_col (adjustments after_early) = [''2026-11-04T21:29:59.500000''] \<and>
   ''2026-11-04T21:29:59.500000'' < now draw_minus \<and>
   adjustments (snd (adjust_dataframe draw_fault 0 [''f1''] after_early)) =
     adjustments after_early \<and>
   (\<exists>ev. adjustments (snd (adjust_dataframe draw_minus 0 [''f1''] after_early)) =
            adjustments after_early @ [ev] \<and>
          random_value_col ev = drawn_minus \<and> operation_col ev = ''-'' \<and>
          timestamp_col ev = now draw_minus \<and>
          heap (snd (adjust_dataframe draw_minus 0 [''f1''] after_early)) ! 1 =
            adjusted_table (operation_col ev) (random_value_col ev) [''f1''] (heap after_early ! 0) \<and>
          (\<exists>rest. fst (get_adjustment_history (snd (adjust_dataframe draw_minus 0 [''f1''] after_early))) =
             Inr (ev # rest)))"
proof -
  have d: "(0::nat) < length (heap after_early)"
    by (simp add: after_early_eq)
  have g: "fst (generate_and_store_random draw_minus after_early) = Inr (drawn_minus, ''-'')"
    "fst (generate_and_store_random draw_fault after_early) = Inl OperationalError"
    by (simp_all add: after_early_eq eval_simps)
  have a: "fst (adjust_dataframe draw_minus 0 [''f1''] after_early) = Inr (1, drawn_minus, ''-'')"
    by (rule minus_on_after_early) simp
  have t: "\<forall>r \<in> set (adjustments after_early). timestamp_col r < now draw_minus"
    by (simp add: after_early_eq draw_minus_def)
  have ts: "map timestamp_col (adjustments after_early) = [''2026-11-04T21:29:59.500000'']"
    "''2026-11-04T21:29:59.500000'' < now draw_minus"
    by (simp_all add: after_early_eq draw_minus_def)
  note th = adjust_dataframe_records_once [OF d, of draw_minus "[''f1'']"]
  note tf = adjust_dataframe_records_once [OF d, of draw_fault "[''f1'']"]
  from tf g(2) have f: "adjustments (snd (adjust_dataframe draw_fault 0 [''f1''] after_early)) =
     adjustments after_early"
    by blast
  from th a t have "\<exists>ev. adjustments (snd (adjust_dataframe draw_minus 0 [''f1''] after_early)) =
            adjustments after_early @ [ev] \<and>
          random_value_col ev = drawn_minus \<and> operation_col ev = ''-'' \<and>
          timestamp_col ev = now draw_minus \<and>
          heap (snd (adjust_dataframe draw_minus 0 [''f1''] after_early)) ! 1 =
            adjusted_table (operation_col ev) (random_value_col ev) [''f1''] (heap after_early ! 0) \<and>
          (\<exists>rest. fst (get_adjustment_history (snd (adjust_dataframe draw_minus 0 [''f1''] after_early))) =
             Inr (ev # rest))"
    by blast
  with d g a ts f show ?thesis by blast
qed

text \<open>
  Claim C4 as stated fails. Two draws recorded at the same instant have equal
  timestamps; the query returns them in the order of their ids, the older first, so the
  result is not ordered by timestamp descending with ties by id descending.
\<close>

theorem history_ties_not_by_id_descending:
  "fst (get_adjustment_history same_instant) =
     Inr [\<lparr>id_col = 1, random_value_col = drawn_minus, operation_col = ''-'',
            timestamp_col = ''2026-11-04T21:30:00''\<rparr>,
          \<lparr>id_col = 2, random_value_col = drawn_plus, operation_col = ''+'',
            timestamp_col = ''2026-11-04T21:30:00''\<rparr>] \<and>
   \<not> sorted_wrt newer
     [\<lparr>id_col = 1, random_value_col = drawn_minus, operation_col = ''-'',
        timestamp_col = ''2026-11-04T21:30:00''\<rparr>,
      \<lparr>id_col = 2, random_value_col = drawn_plus, operation_col = ''+'',
        timestamp_col = ''2026-11-04T21:30:00''\<rparr>]"
  by (simp add: same_instant_eq get_adjustment_history_def order_by_timestamp_desc_def newer_def)

text \<open>
  Claim C4, amended. On an open connection the query returns the rows and leaves the
  state as it is. It returns at most 10 rows (the bound is written in the query; there
  is no limit parameter), all of them rows of the table, ordered by timestamp
  descending; no row left out has a later timestamp than a row returned. Rows of equal
  timestamp come in ascending order of id when the ids of the table increase in
  insertion order. An empty table gives an empty result.
\<close>

theorem history_query_order:
  assumes "conn_open s"
  shows "\<exists>rows. get_adjustment_history s = (Inr rows, s) \<and>
           length rows = min 10 (length (adjustments s)) \<and>
           set rows \<subseteq> set (adjustments s) \<and>
           sorted_wrt (\<lambda>x y. timestamp_col y \<le> timestamp_col x) rows \<and>
           (\<forall>x \<in> set rows. \<forall>y \<in> set (adjustments s) - set rows.
              timestamp_col y \<le> timestamp_col x) \<and>
           (ids_increasing (adjustments s) \<longrightarrow> sorted_wrt delivered_before rows) \<and>
           (adjustments s = [] \<longrightarrow> rows = [])"
proof -
  let ?all = "order_by_timestamp_desc (adjustments s)"
  let ?rows = "take 10 ?all"
  have g: "get_adjustment_history s = (Inr ?rows, s)"
    using assms by (simp add: get_adjustment_history_def)
  have len: "length ?rows = min 10 (length (adjustments s))"
    by (simp add: length_order_by min.commute)
  have sub: "set ?rows \<subseteq> set (adjustments s)"
    using set_take_subset [of 10 ?all] by (simp add: set_order_by)
  have srt: "sorted_wrt (\<lambda>x y. timestamp_col y \<le> timestamp_col x) ?rows"
    using order_by_sorted by (rule sorted_wrt_take)
  have rest: "timestamp_col y \<le> timestamp_col x"
    if "x \<in> set ?rows" "y \<in> set (adjustments s) - set ?rows" for x y
  proof -
    have "set ?all = set ?rows \<union> set (drop 10 ?all)"
      using set_append [of "take 10 ?all" "drop 10 ?all"] by simp
    with that(2) have "y \<in> set (drop 10 ?all)"
      by (auto simp: set_order_by)
    with sorted_wrt_take_drop [OF order_by_sorted, of 10 "adjustments s"] that(1)
    show ?thesis by blast
  qed
  have ties: "sorted_wrt delivered_before ?rows" if "ids_increasing (adjustments s)"
    using order_by_delivered [OF that] by (rule sorted_wrt_take)
  have emp: "?rows = []" if "adjustments s = []"
    using that by (simp add: order_by_timestamp_desc_def)
  from g len sub srt rest ties emp show ?thesis by blast
qed

text \<open>The theorem at the store with two rows of equal timestamp.\<close>

theorem history_query_order_witness:
  "conn_open same_instant \<and> ids_increasing (adjustments same_instant) \<and>
   (\<exists>rows. get_adjustment_history same_instant = (Inr rows, same_instant) \<and>
      length rows = min 10 (length (adjustments same_instant)) \<and>
      set rows \<subseteq> set (adjustments same_instant) \<and>
      sorted_wrt (\<lambda>x y. timestamp_col y \<le> timestamp_col x) rows \<and>
      sorted_wrt delivered_before rows)"
proof -
  have c: "conn_open same_instant"
    by (simp add: same_instant_eq)
  have i: "ids_increasing (adjustments same_instant)"
    by (simp add: same_instant_eq ids_increasing_def)
  from history_query_order [OF c] i c show ?thesis by blast
qed

text \<open>
  Claim C5 as stated fails. Called with an empty selection on a store with one row,
  \<open>adjust_dataframe\<close> returns and the store has two rows.
\<close>

theorem empty_selection_records_a_row:
  "fst (adjust_dataframe draw_minus 0 [] after_early) = Inr (1, drawn_minus, ''-'') \<and>
   length (adjustments after_early) = 1 \<and>
   length (adjustments (snd (adjust_dataframe draw_minus 0 [] after_early))) = 2"
proof -
  have r: "fst (adjust_dataframe draw_minus 0 [] after_early) = Inr (1, drawn_minus, ''-'')"
    by (rule minus_on_after_early) simp
  have one: "length (adjustments after_early) = 1"
    by (simp add: after_early_eq)
  from adjust_dataframe_store(5) [OF r] one
  have "length (adjustments (snd (adjust_dataframe draw_minus 0 [] after_early))) = 2"
    by auto
  with r one show ?thesis by blast
qed

text \<open>
  Claim C5, amended. \<open>adjust_dataframe\<close> does not validate the selection: with an
  empty selection, on a store that accepts the write, it returns a frame equal to the
  input, leaves the input as it is, and has appended one row holding the value and the
  operation it returns. It is the button handler of \<open>main\<close> that answers an empty
  selection with a warning, without calling the adjuster and without a row.
\<close>

theorem empty_selection_copies_and_records:
  assumes "df < length (heap s)" and "conn_open s" and "\<not> write_fault e"
    and "new_rowid (adjustments s) (sqlite_sequence s) \<noteq> None"
  shows "\<exists>a magnitude sign ev.
           fst (adjust_dataframe e df [] s) = Inr (a, magnitude, sign) \<and>
           heap (snd (adjust_dataframe e df [] s)) ! a = heap s ! df \<and>
           heap (snd (adjust_dataframe e df [] s)) ! df = heap s ! df \<and>
           adjustments (snd (adjust_dataframe e df [] s)) = adjustments s @ [ev] \<and>
           random_value_col ev = magnitude \<and> operation_col ev = sign \<and>
           on_apply e df [] s = (Warning, s)"
proof -
  let ?m = "uniform (fl (1 / 100)) (fl (1 / 10)) (random_sample e)"
  let ?sg = "choice [''+'', ''-''] (choice_index e)"
  have r: "fst (adjust_dataframe e df [] s) = Inr (length (heap s), ?m, ?sg)"
    using assms(2,3,4,1) by (rule adjust_dataframe_returns) simp
  from adjust_dataframe_table [OF assms(1) r]
  have t: "heap (snd (adjust_dataframe e df [] s)) ! length (heap s) = heap s ! df"
    by (simp add: adjusted_table_empty)
  have i: "heap (snd (adjust_dataframe e df [] s)) ! df = heap s ! df"
    using adjust_dataframe_heap(2) [OF assms(1)] assms(1) by simp
  from adjust_dataframe_store(5) [OF r] obtain ev where
    "adjustments (snd (adjust_dataframe e df [] s)) = adjustments s @ [ev]"
    "random_value_col ev = ?m" "operation_col ev = ?sg"
    by auto
  with r t i show ?thesis by (auto simp: on_apply_def)
qed

text \<open>The theorem at the small table.\<close>

theorem empty_selection_copies_and_records_witness:
  "(0::nat) < length (heap after_early) \<and> conn_open after_early \<and> \<not> write_fault draw_minus \<and>
   new_rowid (adjustments after_early) (sqlite_sequence after_early) \<noteq> None \<and>
   (\<exists>a magnitude sign ev.
      fst (adjust_dataframe draw_minus 0 [] after_early) = Inr (a, magnitude, sign) \<and>
      heap (snd (adjust_dataframe draw_minus 0 [] after_early)) ! a = heap after_early ! 0 \<and>
      heap (snd (adjust_dataframe draw_minus 0 [] after_early)) ! 0 = heap after_early ! 0 \<and>
      adjustments (snd (adjust_dataframe draw_minus 0 [] after_early)) =
        adjustments after_early @ [ev] \<and>
      random_value_col ev = magnitude \<and> operation_col ev = sign \<and>
      on_apply draw_minus 0 [] after_early = (Warning, after_early))"
proof -
  have d: "(0::nat) < length (heap after_early)" and c: "conn_open after_early"
    and n: "new_rowid (adjustments after_early) (sqlite_sequence after_early) \<noteq> None"
    by (simp_all add: after_early_eq new_rowid_def max_rowid_def MAX_ROWID_def)
  have f: "\<not> write_fault draw_minus"
    by (simp add: draw_minus_def)
  from empty_selection_copies_and_records [OF d c f n] d c f n show ?thesis
    by blast
qed

text \<open>
  Claim C6. When the insert of \<open>generate_and_store_random\<close> raises, the call of
  \<open>adjust_dataframe\<close> raises the same exception and returns no frame; the table is as
  before, and the only new object is the copy of the input, with no cell changed.
\<close>

theorem history_write_failure_propagates:
  assumes "fst (generate_and_store_random e s) = Inl err"
  shows "fst (adjust_dataframe e df selected s) = Inl err \<and>
         adjustments (snd (adjust_dataframe e df selected s)) = adjustments s \<and>
         heap (snd (adjust_dataframe e df selected s)) = heap s @ [heap s ! df]"
  using adjust_dataframe_Inl_generate [OF fst_eqD [OF assms]] by simp

text \<open>The theorem at the store after one draw.\<close>

theorem history_write_failure_propagates_witness:
  "fst (generate_and_store_random draw_fault after_early) = Inl OperationalError \<and>
   fst (adjust_dataframe draw_fault 0 [''f1''] after_early) = Inl OperationalError \<and>
   adjustments (snd (adjust_dataframe draw_fault 0 [''f1''] after_early)) = adjustments after_early \<and>
   heap (snd (adjust_dataframe draw_fault 0 [''f1''] after_early)) =
     heap after_early @ [heap after_early ! 0]"
proof -
  have g: "fst (generate_and_store_random draw_fault after_early) = Inl OperationalError"
    by (simp add: after_early_eq eval_simps)
  from history_write_failure_propagates [OF g, of 0 "[''f1'']"] g show ?thesis
    by simp
qed

text \<open>
  Claim C7. \<open>close\<close> leaves the connection closed. On a closed connection
  \<open>generate_and_store_random\<close>, \<open>adjust_dataframe\<close>, \<open>get_adjustment_history\<close> and
  \<open>create_table\<close> raise the error of a closed database and insert no row. The connection is open after a
  call exactly when it was open before and the call was not \<open>close\<close>; after
  \<open>close\<close> no sequence of calls opens it again or changes the table.
\<close>

theorem closed_store_rejects_calls:
  "\<not> conn_open (close s) \<and>
   (\<not> conn_open s \<longrightarrow>
      generate_and_store_random e s = (Inl ProgrammingError, s) \<and>
      fst (adjust_dataframe e df selected s) = Inl ProgrammingError \<and>
      adjustments (snd (adjust_dataframe e df selected s)) = adjustments s \<and>
      get_adjustment_history s = (Inl ProgrammingError, s) \<and>
      create_table s = (Inl ProgrammingError, s)) \<and>
   (conn_open (step c s) \<longleftrightarrow> conn_open s \<and> c \<noteq> Close) \<and>
   \<not> conn_open (run cs (close s)) \<and>
   adjustments (run cs (close s)) = adjustments s"
proof -
  have c: "\<not> conn_open (close s)" "adjustments (close s) = adjustments s"
    by (simp_all add: close_def)
  from run_closed [OF c(1), of cs] c(2) have
    "\<not> conn_open (run cs (close s)) \<and> adjustments (run cs (close s)) = adjustments s"
    by simp
  with c(1) step_store [of c s] show ?thesis
    by (simp add: generate_closed adjust_dataframe_closed get_adjustment_history_def
        create_table_def)
qed

text \<open>The theorem at the store after one draw.\<close>

theorem closed_store_rejects_calls_witness:
  "\<not> conn_open (close after_early) \<and>
   generate_and_store_random draw_minus (close after_early) =
     (Inl ProgrammingError, close after_early) \<and>
   fst (adjust_dataframe draw_minus 0 [''f1''] (close after_early)) = Inl ProgrammingError \<and>
   adjustments (snd (adjust_dataframe draw_minus 0 [''f1''] (close after_early))) =
     adjustments after_early \<and>
   get_adjustment_history (close after_early) = (Inl ProgrammingError, close after_early) \<and>
   \<not> conn_open (step (Generate draw_minus) (close after_early)) \<and>
   conn_open (step (Generate draw_minus) after_early) \<and>
   \<not> conn_open (step Close after_early) \<and>
   adjustments (run [Generate draw_minus, Adjust draw_plus 0 [''f1''], History]
     (close after_early)) = adjustments after_early"
proof -
  have c: "\<not> conn_open (close after_early)" "conn_open after_early"
    "adjustments (close after_early) = adjustments after_early"
    by (simp_all add: close_def after_early_eq)
  from
    closed_store_rejects_calls [of after_early draw_minus 0 "[''f1'']" "Generate draw_minus"
      "[Generate draw_minus, Adjust draw_plus 0 [''f1''], History]"]
    closed_store_rejects_calls [of "close after_early" draw_minus 0 "[''f1'']"
      "Generate draw_minus" "[]"]
    closed_store_rejects_calls [of after_early draw_minus 0 "[''f1'']" Close "[]"]
    c
  show ?thesis by simp
qed

text \<open>
  Claim C8. A successful insert appends one row whose id is greater than every id of the
  table and than the counter of ids given before. Every call leaves the rows of the table
  in place and appends at most one. From a new database on, the ids of the table are
  strictly increasing in insertion order, hence unique.
\<close>

theorem ids_strictly_increase_append_only:
  "(\<forall>magnitude sign.
      fst (generate_and_store_random e s) = Inr (magnitude, sign) \<longrightarrow>
        (\<exists>ev. adjustments (snd (generate_and_store_random e s)) = adjustments s @ [ev] \<and>
              (\<forall>r \<in> set (adjustments s). id_col r < id_col ev) \<and>
              sqlite_sequence s < id_col ev)) \<and>
   (\<exists>new. adjustments (step c s) = adjustments s @ new \<and> length new \<le> 1) \<and>
   ids_increasing (adjustments (run cs (init h))) \<and>
   distinct (map id_col (adjustments (run cs (init h))))"
proof -
  have g: "\<exists>ev. adjustments (snd (generate_and_store_random e s)) = adjustments s @ [ev] \<and>
              (\<forall>r \<in> set (adjustments s). id_col r < id_col ev) \<and>
              sqlite_sequence s < id_col ev"
    if "fst (generate_and_store_random e s) = Inr (m, sg)" for m sg
    using fst_eqD [OF that] new_rowid_greater
    by (auto simp: generate_Inr insert_adjustment_Inr)
  have st: "\<exists>new. adjustments (step c s) = adjustments s @ new \<and> length new \<le> 1"
    using step_store [of c s] by auto
  have "ids_increasing (adjustments (init h))"
    by (simp add: init_def ids_increasing_def)
  then have inc: "ids_increasing (adjustments (run cs (init h)))"
    by (rule run_ids_increasing)
  from g st inc ids_increasing_distinct [OF inc] show ?thesis by blast
qed

text \<open>The theorem at the store after one draw.\<close>

theorem ids_strictly_increase_append_only_witness:
  "fst (generate_and_store_random draw_minus after_early) = Inr (drawn_minus, ''-'') \<and>
   (\<exists>ev. adjustments (snd (generate_and_store_random draw_minus after_early)) =
            adjustments after_early @ [ev] \<and>
          (\<forall>r \<in> set (adjustments after_early). id_col r < id_col ev) \<and>
          sqlite_sequence after_early < id_col ev) \<and>
   map id_col (adjustments (snd (generate_and_store_random draw_minus after_early))) = [1, 2]"
proof -
  have g: "fst (generate_and_store_random draw_minus after_early) = Inr (drawn_minus, ''-'')"
    by (simp add: after_early_eq eval_simps)
  have i: "map id_col (adjustments (snd (generate_and_store_random draw_minus after_early))) = [1, 2]"
    by (simp add: after_early_eq eval_simps)
  from ids_strictly_increase_append_only [of draw_minus after_early History "[]" "[]"] g i
  show ?thesis by blast
qed

text \<open>
  Claim C9. For a draw numpy can make, the value a call of
  \<open>generate_and_store_random\<close> or of \<open>adjust_dataframe\<close> returns, the float
  \<open>0.01 + (0.1 - 0.01) * sample\<close> computed with three roundings, lies in \<open>[0.01, 0.1)\<close>,
  the operation is \<open>+\<close> or \<open>-\<close>, and the row the call has recorded holds this value and
  this operation.
\<close>

theorem drawn_value_in_range:
  assumes "valid_draw e"
  shows "(\<forall>magnitude sign.
            fst (generate_and_store_random e s) = Inr (magnitude, sign) \<longrightarrow>
              1 / 100 \<le> magnitude \<and> magnitude < 1 / 10 \<and> (sign = ''+'' \<or> sign = ''-'') \<and>
              random_value_col (last (adjustments (snd (generate_and_store_random e s)))) = magnitude \<and>
              operation_col (last (adjustments (snd (generate_and_store_random e s)))) = sign) \<and>
         (\<forall>a magnitude sign.
            fst (adjust_dataframe e df selected s) = Inr (a, magnitude, sign) \<longrightarrow>
              1 / 100 \<le> magnitude \<and> magnitude < 1 / 10 \<and> (sign = ''+'' \<or> sign = ''-'') \<and>
              random_value_col (last (adjustments (snd (adjust_dataframe e df selected s)))) = magnitude \<and>
              operation_col (last (adjustments (snd (adjust_dataframe e df selected s)))) = sign)"
proof -
  from assms have u: "0 \<le> random_sample e" "random_sample e < 1"
      "of_int \<lfloor>random_sample e * 2 ^ 53\<rfloor> = random_sample e * 2 ^ 53"
    and i: "choice_index e < 2"
    by (simp_all add: valid_draw_def)
  note rng = uniform_range [OF u(1) sample_le_max [OF u(2,3)]] choice_sign [OF i]
  have g: "1 / 100 \<le> m \<and> m < 1 / 10 \<and> (sg = ''+'' \<or> sg = ''-'') \<and>
      random_value_col (last (adjustments (snd (generate_and_store_random e s)))) = m \<and>
      operation_col (last (adjustments (snd (generate_and_store_random e s)))) = sg"
    if "fst (generate_and_store_random e s) = Inr (m, sg)" for m sg
  proof -
    have "generate_and_store_random e s = (Inr (m, sg), snd (generate_and_store_random e s))"
      using that by (metis prod.collapse)
    then show ?thesis using rng
      by (auto simp: generate_Inr insert_adjustment_Inr)
  qed
  have a: "1 / 100 \<le> m \<and> m < 1 / 10 \<and> (sg = ''+'' \<or> sg = ''-'') \<and>
      random_value_col (last (adjustments (snd (adjust_dataframe e df selected s)))) = m \<and>
      operation_col (last (adjustments (snd (adjust_dataframe e df selected s)))) = sg"
    if "fst (adjust_dataframe e df selected s) = Inr (a, m, sg)" for a m sg
    using adjust_dataframe_store [OF that] rng by auto
  from g a show ?thesis by blast
qed

text \<open>
  The theorem at the largest sample, where the value is the float next below the float of
  \<open>0.1\<close>.
\<close>

theorem drawn_value_in_range_witness:
  "valid_draw draw_minus \<and>
   fst (generate_and_store_random draw_minus after_early) = Inr (drawn_minus, ''-'') \<and>
   fst (adjust_dataframe draw_minus 0 [''f1''] after_early) = Inr (1, drawn_minus, ''-'') \<and>
   (1 / 100 \<le> drawn_minus \<and> drawn_minus < 1 / 10) \<and>
   drawn_minus = 7205759403792793 / 72057594037927936 \<and>
   random_value_col (last (adjustments (snd (generate_and_store_random draw_minus after_early)))) = drawn_minus \<and>
   operation_col (last (adjustments (snd (generate_and_store_random draw_minus after_early)))) = ''-'' \<and>
   random_value_col (last (adjustments (snd (adjust_dataframe draw_minus 0 [''f1''] after_early)))) = drawn_minus \<and>
   operation_col (last (adjustments (snd (adjust_dataframe draw_minus 0 [''f1''] after_early)))) = ''-''"
proof -
  have v: "valid_draw draw_minus"
    by (simp add: valid_draw_def draw_minus_def)
  have g: "fst (generate_and_store_random draw_minus after_early) = Inr (drawn_minus, ''-'')"
    by (simp add: after_early_eq eval_simps)
  have a: "fst (adjust_dataframe draw_minus 0 [''f1''] after_early) = Inr (1, drawn_minus, ''-'')"
    by (rule minus_on_after_early) simp
  have n: "drawn_minus = 7205759403792793 / 72057594037927936"
    by (rule drawn_minus_def)
  from drawn_value_in_range [OF v, of after_early 0 "[''f1'']"] v g a n show ?thesis
    by blast
qed

text \<open>
  Claim C10. Two returning calls of \<open>adjust_dataframe\<close> on equal frames with the same
  selection that return the same value and operation return equal frames, whatever the
  stores, the clocks and the addresses of the frames are.
\<close>

theorem adjusted_table_determined_by_draw:
  assumes "df1 < length (heap s1)" and "df2 < length (heap s2)"
    and "heap s1 ! df1 = heap s2 ! df2"
    and "fst (adjust_dataframe e1 df1 selected s1) = Inr (a1, magnitude, sign)"
    and "fst (adjust_dataframe e2 df2 selected s2) = Inr (a2, magnitude, sign)"
  shows "heap (snd (adjust_dataframe e1 df1 selected s1)) ! a1 =
         heap (snd (adjust_dataframe e2 df2 selected s2)) ! a2"
  using adjust_dataframe_table [OF assms(1,4)] adjust_dataframe_table [OF assms(2,5)] assms(3)
  by simp

text \<open>The theorem at the small table.\<close>

theorem adjusted_table_determined_by_draw_witness:
  "(0::nat) < length (heap (init [table_A])) \<and> (0::nat) < length (heap same_instant) \<and>
   heap (init [table_A]) ! 0 = heap same_instant ! 0 \<and>
   fst (adjust_dataframe draw_minus 0 [''f1'', ''f2''] (init [table_A])) =
     Inr (1, drawn_minus, ''-'') \<and>
   fst (adjust_dataframe draw_minus_later 0 [''f1'', ''f2''] same_instant) =
     Inr (1, drawn_minus, ''-'') \<and>
   heap (snd (adjust_dataframe draw_minus 0 [''f1'', ''f2''] (init [table_A]))) ! 1 =
   heap (snd (adjust_dataframe draw_minus_later 0 [''f1'', ''f2''] same_instant)) ! 1"
proof -
  have d1: "(0::nat) < length (heap (init [table_A]))"
    by (simp add: init_def)
  have d2: "(0::nat) < length (heap same_instant)"
    by (simp add: same_instant_eq)
  have eq: "heap (init [table_A]) ! 0 = heap same_instant ! 0"
    by (simp add: same_instant_eq init_def)
  have r1: "fst (adjust_dataframe draw_minus 0 [''f1'', ''f2''] (init [table_A])) =
            Inr (1, drawn_minus, ''-'')"
    using returns_on_table_A [of "init [table_A]" draw_minus "[''f1'', ''f2'']"]
    by (simp add: eval_simps)
  have r2: "fst (adjust_dataframe draw_minus_later 0 [''f1'', ''f2''] same_instant) =
            Inr (1, drawn_minus, ''-'')"
    using returns_on_table_A [of same_instant draw_minus_later "[''f1'', ''f2'']"]
    by (simp add: same_instant_eq eval_simps)
  from adjusted_table_determined_by_draw [OF d1 d2 eq r1 r2] d1 d2 eq r1 r2 show ?thesis
    by blast
qed

end
